theory Spec2Isabelle
  imports Complex_Main "HOL-Library.Signed_Division" "HOL-Library.Multiset"
begin

section \<open>Numbers\<close>

text \<open>
  JavaScript numbers are modelled by their mathematical values: \<open>real\<close> for coordinates,
  sizes, speeds and timers, \<open>int\<close> for the counters the game only ever fills with
  integers (score, lives, power, wave numbers, timestamps).  The two non-finite values the
  code uses explicitly, \<open>Infinity\<close> and \<open>-Infinity\<close> in \<open>FormationController.update\<close>,
  and the \<open>NaN\<close> that \<open>%\<close> yields for a zero divisor are modelled explicitly below.
\<close>

datatype number = NegInfinity | Finite real | Infinity

text \<open>\<open>Math.min(a, b)\<close> and \<open>Math.max(a, b)\<close> with a finite second argument.\<close>

fun Math_min :: "number \<Rightarrow> real \<Rightarrow> number" where
  "Math_min NegInfinity b = NegInfinity"
| "Math_min (Finite a) b = Finite (min a b)"
| "Math_min Infinity b = Finite b"

fun Math_max :: "number \<Rightarrow> real \<Rightarrow> number" where
  "Math_max NegInfinity b = Finite b"
| "Math_max (Finite a) b = Finite (max a b)"
| "Math_max Infinity b = Infinity"

text \<open>\<open>a >= b\<close> and \<open>a <= b\<close> with a finite right-hand side.\<close>

fun number_ge :: "number \<Rightarrow> real \<Rightarrow> bool" where
  "number_ge NegInfinity b = False"
| "number_ge (Finite a) b = (a \<ge> b)"
| "number_ge Infinity b = True"

fun number_le :: "number \<Rightarrow> real \<Rightarrow> bool" where
  "number_le NegInfinity b = True"
| "number_le (Finite a) b = (a \<le> b)"
| "number_le Infinity b = False"

text \<open>
  The remainder operator \<open>a % b\<close> on integers: the result takes the sign of the dividend,
  and a zero divisor gives \<open>NaN\<close>, here \<open>None\<close>.
\<close>

definition js_rem :: "int \<Rightarrow> int \<Rightarrow> int option" where
  "js_rem a b = (if b = 0 then None else Some (a smod b))"

section \<open>Configuration (js/config.js)\<close>

text \<open>
  \<open>CONFIG\<close> is a global object that the entry point mutates when the canvas is resized
  (\<open>CANVAS.width\<close>, \<open>CANVAS.height\<close>, \<open>GAMEPLAY.playerStartY\<close>, \<open>GAMEPLAY.bottomLine\<close>), so
  every function that reads it takes the current configuration as an argument.  The
  constant \<open>CONFIG\<close> holds the values written in \<open>config.js\<close>.  Colours, key bindings and
  asset paths are only read by rendering and input code and are left out.
\<close>

record dims =
  width :: real
  height :: real

record sizes =
  player :: dims
  enemy :: dims
  boss :: dims
  bullet :: dims
  powerProjectile :: dims

record gameplay =
  playerSpeed :: real
  playerStartY :: real
  bulletSpeed :: real
  fireCooldown :: real
  enemySpeed :: real
  enemyStepDown :: real
  enemyRows :: int
  enemyCols :: int
  enemySpacingX :: real
  enemySpacingY :: real
  enemyStartX :: real
  enemyStartY :: real
  bossHP :: int
  bossSpeed :: real
  bossSpawnWave :: int
  bossRewardScore :: int
  bossRewardPower :: int
  turiaPowerMax :: int
  turiaPowerPerKill :: int
  powerAttackSpeed :: real
  powerAttackDirections :: int
  livesMax :: int
  scorePerKill :: int
  speedIncreasePerWave :: real
  bottomLine :: real

record config =
  CANVAS :: dims
  SIZES :: sizes
  GAMEPLAY :: gameplay

definition CONFIG :: config where
  "CONFIG = \<lparr>
     CANVAS = \<lparr> dims.width = 800, dims.height = 600 \<rparr>,
     SIZES = \<lparr>
       sizes.player = \<lparr> dims.width = 72, dims.height = 48 \<rparr>,
       sizes.enemy = \<lparr> dims.width = 48, dims.height = 48 \<rparr>,
       sizes.boss = \<lparr> dims.width = 96, dims.height = 96 \<rparr>,
       sizes.bullet = \<lparr> dims.width = 4, dims.height = 12 \<rparr>,
       sizes.powerProjectile = \<lparr> dims.width = 8, dims.height = 8 \<rparr> \<rparr>,
     GAMEPLAY = \<lparr>
       playerSpeed = 300,
       playerStartY = 500,
       bulletSpeed = 500,
       fireCooldown = 200,
       enemySpeed = 50,
       enemyStepDown = 20,
       enemyRows = 4,
       enemyCols = 8,
       enemySpacingX = 50,
       enemySpacingY = 40,
       enemyStartX = 100,
       enemyStartY = 80,
       bossHP = 20,
       bossSpeed = 30,
       bossSpawnWave = 3,
       bossRewardScore = 500,
       bossRewardPower = 50,
       turiaPowerMax = 100,
       turiaPowerPerKill = 10,
       powerAttackSpeed = 400,
       powerAttackDirections = 8,
       livesMax = 3,
       scorePerKill = 10,
       speedIncreasePerWave = 5,
       bottomLine = 470 \<rparr> \<rparr>"

section \<open>Utility functions (js/utils.js)\<close>

record rect =
  x :: real
  y :: real
  width :: real
  height :: real

definition rectIntersect :: "rect \<Rightarrow> rect \<Rightarrow> bool" where
  "rectIntersect a b \<longleftrightarrow>
     rect.x a < rect.x b + rect.width b \<and>
     rect.x a + rect.width a > rect.x b \<and>
     rect.y a < rect.y b + rect.height b \<and>
     rect.y a + rect.height a > rect.y b"

text \<open>
  The same test with the rounding of the four additions made explicit: \<open>rnd\<close> stands for
  the rounding of a sum to a double, which never reverses the order of two sums.  With
  no rounding it is \<open>rectIntersect\<close>.
\<close>

definition rectIntersect_rounded :: "(real \<Rightarrow> real) \<Rightarrow> rect \<Rightarrow> rect \<Rightarrow> bool" where
  "rectIntersect_rounded rnd a b \<longleftrightarrow>
     rect.x a < rnd (rect.x b + rect.width b) \<and>
     rnd (rect.x a + rect.width a) > rect.x b \<and>
     rect.y a < rnd (rect.y b + rect.height b) \<and>
     rnd (rect.y a + rect.height a) > rect.y b"

section \<open>Bullet (js/entities/Bullet.js)\<close>

record Bullet =
  x :: real
  y :: real
  velocityY :: real
  width :: real
  height :: real
  active :: bool

text \<open>The constructor \<open>new Bullet(x, y, velocityY)\<close>.\<close>

definition new_Bullet :: "config \<Rightarrow> real \<Rightarrow> real \<Rightarrow> real \<Rightarrow> Bullet" where
  "new_Bullet cfg x0 y0 vy = \<lparr>
     Bullet.x = x0,
     Bullet.y = y0,
     Bullet.velocityY = vy,
     Bullet.width = dims.width (sizes.bullet (SIZES cfg)),
     Bullet.height = dims.height (sizes.bullet (SIZES cfg)),
     Bullet.active = True \<rparr>"

definition Bullet_getBounds :: "Bullet \<Rightarrow> rect" where
  "Bullet_getBounds b = \<lparr>
     rect.x = Bullet.x b - Bullet.width b / 2,
     rect.y = Bullet.y b - Bullet.height b / 2,
     rect.width = Bullet.width b,
     rect.height = Bullet.height b \<rparr>"

definition Bullet_destroy :: "Bullet \<Rightarrow> Bullet" where
  "Bullet_destroy b = b\<lparr> Bullet.active := False \<rparr>"

section \<open>Player (js/entities/Player.js)\<close>

record Player =
  x :: real
  y :: real
  width :: real
  height :: real
  speed :: real
  fireCooldown :: real
  fireCooldownMax :: real

definition new_Player :: "config \<Rightarrow> real \<Rightarrow> real \<Rightarrow> Player" where
  "new_Player cfg x0 y0 = \<lparr>
     Player.x = x0,
     Player.y = y0,
     Player.width = dims.width (sizes.player (SIZES cfg)),
     Player.height = dims.height (sizes.player (SIZES cfg)),
     Player.speed = playerSpeed (GAMEPLAY cfg),
     Player.fireCooldown = 0,
     Player.fireCooldownMax = gameplay.fireCooldown (GAMEPLAY cfg) \<rparr>"

text \<open>
  \<open>shoot()\<close> returns the new bullet, or \<open>null\<close> (here \<open>None\<close>), together with the player
  after the call.
\<close>

definition shoot :: "config \<Rightarrow> Player \<Rightarrow> Bullet option \<times> Player" where
  "shoot cfg p =
     (if Player.fireCooldown p \<le> 0
      then (Some (new_Bullet cfg (Player.x p) (Player.y p - Player.height p / 2)
                    (- bulletSpeed (GAMEPLAY cfg))),
            p\<lparr> Player.fireCooldown := Player.fireCooldownMax p \<rparr>)
      else (None, p))"

definition canShoot :: "Player \<Rightarrow> bool" where
  "canShoot p \<longleftrightarrow> Player.fireCooldown p \<le> 0"

section \<open>SpawnSystem (shouldSpawnBoss)\<close>

definition shouldSpawnBoss :: "config \<Rightarrow> int \<Rightarrow> bool" where
  "shouldSpawnBoss cfg waveNumber \<longleftrightarrow>
     waveNumber > 0 \<and> js_rem waveNumber (bossSpawnWave (GAMEPLAY cfg)) = Some 0"

section \<open>Enemy and FormationController (js/entities/Enemy.js)\<close>

record point =
  x :: real
  y :: real

text \<open>
  The fields of an enemy that the simulation reads.  The bob animation (whose start phase
  is random) and the sprite are used by \<open>render\<close> only.
\<close>

record Enemy =
  localX :: real
  localY :: real
  type :: int
  width :: real
  height :: real
  alive :: bool
  dying :: bool
  deathTimer :: real
  deathDuration :: real

definition new_Enemy :: "config \<Rightarrow> real \<Rightarrow> real \<Rightarrow> int \<Rightarrow> Enemy" where
  "new_Enemy cfg lx ly t = \<lparr>
     localX = lx,
     localY = ly,
     type = t,
     Enemy.width = dims.width (sizes.enemy (SIZES cfg)),
     Enemy.height = dims.height (sizes.enemy (SIZES cfg)),
     alive = True,
     dying = False,
     deathTimer = 0,
     deathDuration = 200 \<rparr>"

definition getWorldPosition :: "Enemy \<Rightarrow> point \<Rightarrow> point" where
  "getWorldPosition e formationOffset = \<lparr>
     point.x = localX e + point.x formationOffset,
     point.y = localY e + point.y formationOffset \<rparr>"

definition Enemy_getBounds :: "Enemy \<Rightarrow> point \<Rightarrow> rect" where
  "Enemy_getBounds e formationOffset =
     (let worldPos = getWorldPosition e formationOffset in \<lparr>
        rect.x = point.x worldPos - Enemy.width e / 2,
        rect.y = point.y worldPos - Enemy.height e / 2,
        rect.width = Enemy.width e,
        rect.height = Enemy.height e \<rparr>)"

definition kill :: "Enemy \<Rightarrow> Enemy" where
  "kill e = (if \<not> alive e then e else e\<lparr> dying := True, deathTimer := deathDuration e \<rparr>)"

definition Enemy_update :: "real \<Rightarrow> Enemy \<Rightarrow> Enemy" where
  "Enemy_update dt e =
     (if dying e
      then (let e1 = e\<lparr> deathTimer := deathTimer e - dt * 1000 \<rparr>
            in if deathTimer e1 \<le> 0 then e1\<lparr> alive := False, dying := False \<rparr> else e1)
      else e)"

record FormationController =
  offsetX :: real
  offsetY :: real
  direction :: real
  speed :: real
  stepDownAmount :: real
  minX :: real
  maxX :: real

definition new_FormationController :: "config \<Rightarrow> FormationController" where
  "new_FormationController cfg = \<lparr>
     offsetX = 0,
     offsetY = 0,
     direction = 1,
     FormationController.speed = enemySpeed (GAMEPLAY cfg),
     stepDownAmount = enemyStepDown (GAMEPLAY cfg),
     minX = enemyStartX (GAMEPLAY cfg),
     maxX = dims.width (CANVAS cfg) - enemyStartX (GAMEPLAY cfg) \<rparr>"

text \<open>
  The loop of \<open>update\<close> over \<open>aliveEnemies\<close>; the accumulator is
  \<open>(minEnemyX, maxEnemyX)\<close> and \<open>ox\<close> is \<open>this.offsetX\<close>.
\<close>

fun boundsLoop :: "real \<Rightarrow> Enemy list \<Rightarrow> number \<times> number \<Rightarrow> number \<times> number" where
  "boundsLoop ox [] acc = acc"
| "boundsLoop ox (e # es) (minEnemyX, maxEnemyX) =
     (let worldX = localX e + ox
      in boundsLoop ox es (Math_min minEnemyX (worldX - Enemy.width e / 2),
                           Math_max maxEnemyX (worldX + Enemy.width e / 2)))"

definition update :: "config \<Rightarrow> real \<Rightarrow> Enemy list \<Rightarrow> FormationController \<Rightarrow> FormationController" where
  "update cfg dt enemies fc =
     (let fc1 = fc\<lparr> maxX := dims.width (CANVAS cfg) - enemyStartX (GAMEPLAY cfg) \<rparr>;
          fc2 = fc1\<lparr> offsetX := offsetX fc1 + FormationController.speed fc1 * direction fc1 * dt \<rparr>;
          aliveEnemies = filter (\<lambda>e. alive e \<or> dying e) enemies
      in if length aliveEnemies = 0 then fc2
         else
           (case boundsLoop (offsetX fc2) aliveEnemies (Infinity, NegInfinity) of
              (minEnemyX, maxEnemyX) \<Rightarrow>
                if number_ge maxEnemyX (maxX fc2) \<and> direction fc2 > 0
                then fc2\<lparr> direction := -1, offsetY := offsetY fc2 + stepDownAmount fc2 \<rparr>
                else if number_le minEnemyX (minX fc2) \<and> direction fc2 < 0
                then fc2\<lparr> direction := 1, offsetY := offsetY fc2 + stepDownAmount fc2 \<rparr>
                else fc2))"

definition getOffset :: "FormationController \<Rightarrow> point" where
  "getOffset fc = \<lparr> point.x = offsetX fc, point.y = offsetY fc \<rparr>"

definition FormationController_reset :: "FormationController \<Rightarrow> FormationController" where
  "FormationController_reset fc = fc\<lparr> offsetX := 0, offsetY := 0, direction := 1 \<rparr>"

section \<open>Power projectiles (PowerProjectile)\<close>

record PowerProjectile =
  x :: real
  y :: real
  dirX :: real
  dirY :: real
  speed :: real
  width :: real
  height :: real
  active :: bool

definition PowerProjectile_getBounds :: "PowerProjectile \<Rightarrow> rect" where
  "PowerProjectile_getBounds p = \<lparr>
     rect.x = PowerProjectile.x p - PowerProjectile.width p / 2,
     rect.y = PowerProjectile.y p - PowerProjectile.height p / 2,
     rect.width = PowerProjectile.width p,
     rect.height = PowerProjectile.height p \<rparr>"

section \<open>CollisionSystem (js/systems/CollisionSystem.js)\<close>

text \<open>
  The arrays handed to the collision system hold object references, and a collision
  mutates the objects in place.  The model passes the arrays as lists of records and
  returns the lists after the call; an event names the objects it refers to by their
  positions in these lists.  (The play state builds both arrays from freshly constructed
  objects, so no object occurs twice in an array.)
\<close>

datatype event =
    bullet_enemy (bullet_of: nat) (enemy_of: nat)
  | power_enemy (projectile_of: nat) (enemy_of: nat)
  | enemy_reach_bottom (enemy_of: nat)

record CollisionSystem =
  events :: "event list"

definition clear :: "CollisionSystem \<Rightarrow> CollisionSystem" where
  "clear cs = cs\<lparr> events := [] \<rparr>"

text \<open>
  The inner loop of \<open>checkBulletEnemyCollisions\<close> for one bullet with bounds \<open>bulletBounds\<close>:
  \<open>i\<close> is the position of the head of the list in the whole array.  The result is the
  position of the enemy that was hit, if the loop left through \<open>break\<close>, and the enemies
  after the loop.
\<close>

fun bulletEnemyScan :: "rect \<Rightarrow> point \<Rightarrow> nat \<Rightarrow> Enemy list \<Rightarrow> nat option \<times> Enemy list" where
  "bulletEnemyScan bulletBounds formationOffset i [] = (None, [])"
| "bulletEnemyScan bulletBounds formationOffset i (e # es) =
     (if \<not> alive e \<or> dying e
      then (case bulletEnemyScan bulletBounds formationOffset (Suc i) es of
              (r, es') \<Rightarrow> (r, e # es'))
      else if rectIntersect bulletBounds (Enemy_getBounds e formationOffset)
      then (Some i, kill e # es)
      else (case bulletEnemyScan bulletBounds formationOffset (Suc i) es of
              (r, es') \<Rightarrow> (r, e # es')))"

text \<open>
  The outer loop over the bullets: \<open>i\<close> is the position of the head of the bullet list in
  the whole array.  The result is the \<open>collisions\<close> array, the bullets and the enemies.
\<close>

fun bulletLoop :: "point \<Rightarrow> nat \<Rightarrow> Bullet list \<Rightarrow> Enemy list \<Rightarrow> event list \<times> Bullet list \<times> Enemy list" where
  "bulletLoop formationOffset i [] enemies = ([], [], enemies)"
| "bulletLoop formationOffset i (b # bs) enemies =
     (if \<not> Bullet.active b
      then (case bulletLoop formationOffset (Suc i) bs enemies of
              (collisions, bs', enemies') \<Rightarrow> (collisions, b # bs', enemies'))
      else
        (case bulletEnemyScan (Bullet_getBounds b) formationOffset 0 enemies of
           (None, enemies1) \<Rightarrow>
             (case bulletLoop formationOffset (Suc i) bs enemies1 of
                (collisions, bs', enemies') \<Rightarrow> (collisions, b # bs', enemies'))
         | (Some j, enemies1) \<Rightarrow>
             (case bulletLoop formationOffset (Suc i) bs enemies1 of
                (collisions, bs', enemies') \<Rightarrow>
                  (bullet_enemy i j # collisions, Bullet_destroy b # bs', enemies'))))"

text \<open>
  \<open>checkBulletEnemyCollisions(bullets, enemies, formationOffset)\<close>: the returned
  \<open>collisions\<close>, and the collision system, the bullets and the enemies after the call.
\<close>

definition checkBulletEnemyCollisions ::
  "CollisionSystem \<Rightarrow> Bullet list \<Rightarrow> Enemy list \<Rightarrow> point \<Rightarrow>
     event list \<times> CollisionSystem \<times> Bullet list \<times> Enemy list" where
  "checkBulletEnemyCollisions cs bullets enemies formationOffset =
     (case bulletLoop formationOffset 0 bullets enemies of
        (collisions, bullets', enemies') \<Rightarrow>
          (collisions, cs\<lparr> events := events cs @ collisions \<rparr>, bullets', enemies'))"

text \<open>
  \<open>checkPowerAttackEnemyCollisions\<close>: the inner loop has no \<open>break\<close> and the projectile
  stays active, so one projectile may hit several enemies.
\<close>

fun powerEnemyScan :: "rect \<Rightarrow> point \<Rightarrow> nat \<Rightarrow> nat \<Rightarrow> Enemy list \<Rightarrow> event list \<times> Enemy list" where
  "powerEnemyScan projectileBounds formationOffset i j [] = ([], [])"
| "powerEnemyScan projectileBounds formationOffset i j (e # es) =
     (if \<not> alive e \<or> dying e
      then (case powerEnemyScan projectileBounds formationOffset i (Suc j) es of
              (collisions, es') \<Rightarrow> (collisions, e # es'))
      else if rectIntersect projectileBounds (Enemy_getBounds e formationOffset)
      then (case powerEnemyScan projectileBounds formationOffset i (Suc j) es of
              (collisions, es') \<Rightarrow> (power_enemy i j # collisions, kill e # es'))
      else (case powerEnemyScan projectileBounds formationOffset i (Suc j) es of
              (collisions, es') \<Rightarrow> (collisions, e # es')))"

fun projectileLoop :: "point \<Rightarrow> nat \<Rightarrow> PowerProjectile list \<Rightarrow> Enemy list \<Rightarrow> event list \<times> Enemy list" where
  "projectileLoop formationOffset i [] enemies = ([], enemies)"
| "projectileLoop formationOffset i (p # ps) enemies =
     (if \<not> PowerProjectile.active p then projectileLoop formationOffset (Suc i) ps enemies
      else
        (case powerEnemyScan (PowerProjectile_getBounds p) formationOffset i 0 enemies of
           (hits, enemies1) \<Rightarrow>
             (case projectileLoop formationOffset (Suc i) ps enemies1 of
                (collisions, enemies') \<Rightarrow> (hits @ collisions, enemies'))))"

definition checkPowerAttackEnemyCollisions ::
  "CollisionSystem \<Rightarrow> PowerProjectile list \<Rightarrow> Enemy list \<Rightarrow> point \<Rightarrow>
     event list \<times> CollisionSystem \<times> Enemy list" where
  "checkPowerAttackEnemyCollisions cs projectiles enemies formationOffset =
     (case projectileLoop formationOffset 0 projectiles enemies of
        (collisions, enemies') \<Rightarrow>
          (collisions, cs\<lparr> events := events cs @ collisions \<rparr>, enemies'))"

text \<open>
  \<open>checkEnemyReachBottom(enemies, formationOffset, bottomLineY)\<close>: the position of the
  first enemy that makes the loop return \<open>true\<close>, if any.
\<close>

fun reachBottomScan :: "point \<Rightarrow> real \<Rightarrow> nat \<Rightarrow> Enemy list \<Rightarrow> nat option" where
  "reachBottomScan formationOffset bottomLineY i [] = None"
| "reachBottomScan formationOffset bottomLineY i (e # es) =
     (if \<not> alive e then reachBottomScan formationOffset bottomLineY (Suc i) es
      else
        (let worldPos = getWorldPosition e formationOffset;
             bottomY = point.y worldPos + Enemy.height e / 2
         in if bottomY \<ge> bottomLineY then Some i
            else reachBottomScan formationOffset bottomLineY (Suc i) es))"

definition checkEnemyReachBottom ::
  "CollisionSystem \<Rightarrow> Enemy list \<Rightarrow> point \<Rightarrow> real \<Rightarrow> bool \<times> CollisionSystem" where
  "checkEnemyReachBottom cs enemies formationOffset bottomLineY =
     (case reachBottomScan formationOffset bottomLineY 0 enemies of
        Some i \<Rightarrow> (True, cs\<lparr> events := events cs @ [enemy_reach_bottom i] \<rparr>)
      | None \<Rightarrow> (False, cs))"

section \<open>ScoreSystem\<close>

record ScoreSystem =
  score :: int
  lives :: int
  turiaPower :: int
  turiaPowerMax :: int
  playerName :: string

definition new_ScoreSystem :: "config \<Rightarrow> ScoreSystem" where
  "new_ScoreSystem cfg = \<lparr>
     score = 0,
     lives = livesMax (GAMEPLAY cfg),
     turiaPower = 0,
     ScoreSystem.turiaPowerMax = gameplay.turiaPowerMax (GAMEPLAY cfg),
     playerName = [] \<rparr>"

definition addPower :: "int \<Rightarrow> ScoreSystem \<Rightarrow> ScoreSystem" where
  "addPower amount s = s\<lparr> turiaPower := min (turiaPower s + amount) (ScoreSystem.turiaPowerMax s) \<rparr>"

text \<open>\<open>addKill(points, power)\<close>, and \<open>addKill()\<close> with the default arguments.\<close>

definition addKill_with :: "int \<Rightarrow> int \<Rightarrow> ScoreSystem \<Rightarrow> ScoreSystem" where
  "addKill_with points power_amount s = addPower power_amount (s\<lparr> score := score s + points \<rparr>)"

definition addKill :: "config \<Rightarrow> ScoreSystem \<Rightarrow> ScoreSystem" where
  "addKill cfg s = addKill_with (scorePerKill (GAMEPLAY cfg)) (turiaPowerPerKill (GAMEPLAY cfg)) s"

definition addBossKill :: "config \<Rightarrow> ScoreSystem \<Rightarrow> ScoreSystem" where
  "addBossKill cfg s =
     addPower (bossRewardPower (GAMEPLAY cfg)) (s\<lparr> score := score s + bossRewardScore (GAMEPLAY cfg) \<rparr>)"

definition isPowerReady :: "ScoreSystem \<Rightarrow> bool" where
  "isPowerReady s \<longleftrightarrow> turiaPower s \<ge> ScoreSystem.turiaPowerMax s"

definition consumePower :: "ScoreSystem \<Rightarrow> bool \<times> ScoreSystem" where
  "consumePower s = (if isPowerReady s then (True, s\<lparr> turiaPower := 0 \<rparr>) else (False, s))"

definition loseLife :: "ScoreSystem \<Rightarrow> int \<times> ScoreSystem" where
  "loseLife s = (let s' = s\<lparr> lives := max 0 (lives s - 1) \<rparr> in (lives s', s'))"

definition isGameOver :: "ScoreSystem \<Rightarrow> bool" where
  "isGameOver s \<longleftrightarrow> lives s \<le> 0"

definition reset :: "config \<Rightarrow> ScoreSystem \<Rightarrow> ScoreSystem" where
  "reset cfg s = s\<lparr> score := 0, lives := livesMax (GAMEPLAY cfg), turiaPower := 0 \<rparr>"

text \<open>
  The states a score system passes through once \<open>reset()\<close> has been called, whatever its
  methods are called with afterwards.  \<open>setPlayerName\<close> only assigns \<open>playerName\<close>; the
  rule for it allows any new name.  The scoreboard methods do not assign any field.
\<close>

inductive reachable :: "config \<Rightarrow> ScoreSystem \<Rightarrow> bool" for cfg :: config where
  after_reset: "reachable cfg (reset cfg s)"
| after_addKill: "reachable cfg s \<Longrightarrow> reachable cfg (addKill_with points power_amount s)"
| after_addBossKill: "reachable cfg s \<Longrightarrow> reachable cfg (addBossKill cfg s)"
| after_addPower: "reachable cfg s \<Longrightarrow> reachable cfg (addPower amount s)"
| after_consumePower: "reachable cfg s \<Longrightarrow> reachable cfg (snd (consumePower s))"
| after_loseLife: "reachable cfg s \<Longrightarrow> reachable cfg (snd (loseLife s))"
| after_setPlayerName: "reachable cfg s \<Longrightarrow> reachable cfg (s\<lparr> playerName := n \<rparr>)"

text \<open>\<open>loseLife()\<close> called \<open>n\<close> times in a row.\<close>

fun loseLives :: "nat \<Rightarrow> ScoreSystem \<Rightarrow> ScoreSystem" where
  "loseLives 0 s = s"
| "loseLives (Suc n) s = loseLives n (snd (loseLife s))"

subsection \<open>Scoreboard\<close>

text \<open>
  An element of a stored array, as \<open>JSON.parse\<close> returns it: \<open>null\<close>; an object
  \<open>{name, score, date}\<close> with an integer score, as \<open>saveScore\<close> writes them; or any other
  value (a number, a string, an object without such a score, ...).
\<close>

record entry =
  name :: string
  score :: int
  date :: int

datatype item = Null | Entry entry | Other

text \<open>
  What \<open>localStorage\<close> holds under the key \<open>turiaScores\<close>: nothing, a string that
  \<open>JSON.parse\<close> rejects, the JSON text of a value that is not an array, or the JSON text of
  an array (\<open>JSON.stringify\<close> followed by \<open>JSON.parse\<close> gives the array back unchanged).
  Reading and writing may throw, for instance when storage is disabled, absent or full;
  the two flags say whether a call does.
\<close>

datatype stored = Absent | NotJSON | NotAnArray | Array "item list"

record localStorage =
  turiaScores :: stored
  getItem_throws :: bool
  setItem_throws :: bool

datatype exception = Exception

definition getItem :: "localStorage \<Rightarrow> exception + stored" where
  "getItem st = (if getItem_throws st then Inl Exception else Inr (turiaScores st))"

definition setItem :: "localStorage \<Rightarrow> item list \<Rightarrow> exception + localStorage" where
  "setItem st xs = (if setItem_throws st then Inl Exception else Inr (st\<lparr> turiaScores := Array xs \<rparr>))"

text \<open>
  \<open>getScoreboard()\<close> catches what the read or \<open>JSON.parse\<close> throws, and only tests
  \<open>Array.isArray\<close>: the elements of an array are returned as they are.
\<close>

definition getScoreboard :: "localStorage \<Rightarrow> item list" where
  "getScoreboard st =
     (case getItem st of
        Inl e \<Rightarrow> []
      | Inr Absent \<Rightarrow> []
      | Inr NotJSON \<Rightarrow> []
      | Inr NotAnArray \<Rightarrow> []
      | Inr (Array scores) \<Rightarrow> scores)"

fun entryOf :: "item \<Rightarrow> entry option" where
  "entryOf (Entry e) = Some e"
| "entryOf Null = None"
| "entryOf Other = None"

text \<open>
  The order that the comparator \<open>(a, b) => b.score - a.score\<close> gives to score entries: the
  sort of an array is stable, and so is insertion by descending score.
\<close>

definition sortDescending :: "entry list \<Rightarrow> entry list" where
  "sortDescending scores = sort_key (\<lambda>e. - entry.score e) scores"

text \<open>
  \<open>scores.sort((a, b) => b.score - a.score)\<close>.  An array of fewer than two elements is
  not compared at all.  Otherwise every element is compared with another one, and reading
  \<open>score\<close> from \<open>null\<close> throws.  An array of score entries is put in descending order of
  score.  With any other value among the elements the outcome is not followed here (a
  score that is not a number makes the differences \<open>NaN\<close>, and the order is then left to
  the engine): \<open>engine\<close> stands for it.
\<close>

definition sortByScore ::
  "(item list \<Rightarrow> exception + item list) \<Rightarrow> item list \<Rightarrow> exception + item list" where
  "sortByScore engine scores =
     (if length scores < 2 then Inr scores
      else if Null \<in> set scores then Inl Exception
      else case those (map entryOf scores) of
             Some es \<Rightarrow> Inr (map Entry (sortDescending es))
           | None \<Rightarrow> engine scores)"

text \<open>
  \<open>saveScore()\<close>, with \<open>now\<close> the value of \<open>Date.now()\<close>: the returned flag and the storage
  after the call.  An exception in the \<open>try\<close> block, from the sort or from the write, is
  caught and gives \<open>false\<close>.  The score system itself is not assigned to.
\<close>

definition saveScore ::
  "(item list \<Rightarrow> exception + item list) \<Rightarrow> int \<Rightarrow> ScoreSystem \<Rightarrow> localStorage \<Rightarrow> bool \<times> localStorage" where
  "saveScore engine now s st =
     (if playerName s = [] \<or> ScoreSystem.score s \<le> 0 then (False, st)
      else
        (let scores = getScoreboard st @
                        [Entry \<lparr> name = playerName s, entry.score = ScoreSystem.score s, date = now \<rparr>]
         in case sortByScore engine scores of
              Inl e \<Rightarrow> (False, st)
            | Inr sorted_scores \<Rightarrow>
                (let topScores = take 10 sorted_scores
                 in case setItem st topScores of
                      Inl e \<Rightarrow> (False, st)
                    | Inr st' \<Rightarrow> (True, st'))))"

text \<open>
  A sequence of games: for each \<open>(name, score, now)\<close> the score system holds that name and
  score when \<open>saveScore()\<close> is called at time \<open>now\<close>.
\<close>

fun saveScores ::
  "(item list \<Rightarrow> exception + item list) \<Rightarrow> (string \<times> int \<times> int) list \<Rightarrow> ScoreSystem \<Rightarrow> localStorage \<Rightarrow> localStorage" where
  "saveScores engine [] s st = st"
| "saveScores engine ((n, v, now) # rest) s st =
     saveScores engine rest s
       (snd (saveScore engine now (s\<lparr> playerName := n, ScoreSystem.score := v \<rparr>) st))"

section \<open>PlayState: collision handling (js/states/PlayState.js)\<close>

text \<open>
  The part of the play state that \<open>checkCollisions\<close> works on, during a regular wave:
  \<open>this.boss\<close> is \<open>null\<close>, so both boss blocks are skipped.  \<open>powerAttack\<close> is \<open>None\<close> for
  \<open>null\<close>.  \<open>this.game.shake()\<close> only affects rendering.
\<close>

record PowerAttack =
  projectiles :: "PowerProjectile list"
  active :: bool

definition getProjectiles :: "PowerAttack \<Rightarrow> PowerProjectile list" where
  "getProjectiles pa = filter PowerProjectile.active (projectiles pa)"

record PlayState =
  bullets :: "Bullet list"
  enemies :: "Enemy list"
  formation :: FormationController
  collision :: CollisionSystem
  score :: ScoreSystem
  powerAttack :: "PowerAttack option"

text \<open>\<open>for (const hit of hits) this.score.addKill()\<close>\<close>

definition addKills :: "config \<Rightarrow> event list \<Rightarrow> ScoreSystem \<Rightarrow> ScoreSystem" where
  "addKills cfg hits s = fold (\<lambda>hit. addKill cfg) hits s"

text \<open>The block ``Bullets vs enemies'' with ``Add score for kills''.\<close>

definition bulletsVsEnemies :: "config \<Rightarrow> point \<Rightarrow> PlayState \<Rightarrow> PlayState" where
  "bulletsVsEnemies cfg offset ps =
     (case checkBulletEnemyCollisions (collision ps) (bullets ps) (enemies ps) offset of
        (bulletEnemyHits, collision', bullets', enemies') \<Rightarrow>
          ps\<lparr> collision := collision', bullets := bullets', enemies := enemies',
              PlayState.score := addKills cfg bulletEnemyHits (PlayState.score ps) \<rparr>)"

text \<open>The block ``Power attack vs enemies''.\<close>

definition powerAttackVsEnemies :: "config \<Rightarrow> point \<Rightarrow> PlayState \<Rightarrow> PlayState" where
  "powerAttackVsEnemies cfg offset ps =
     (case powerAttack ps of
        None \<Rightarrow> ps
      | Some pa \<Rightarrow>
          if \<not> PowerAttack.active pa then ps
          else
            (case checkPowerAttackEnemyCollisions (collision ps) (getProjectiles pa) (enemies ps) offset of
               (powerEnemyHits, collision', enemies') \<Rightarrow>
                 ps\<lparr> collision := collision', enemies := enemies',
                     PlayState.score := addKills cfg powerEnemyHits (PlayState.score ps) \<rparr>))"

definition handleEnemyReachBottom :: "PlayState \<Rightarrow> PlayState" where
  "handleEnemyReachBottom ps =
     (case loseLife (PlayState.score ps) of
        (remaining, score') \<Rightarrow>
          if remaining \<le> 0 then ps\<lparr> PlayState.score := score' \<rparr>
          else ps\<lparr> PlayState.score := score', formation := FormationController_reset (formation ps) \<rparr>)"

text \<open>The block ``Enemies reaching bottom''.\<close>

definition enemiesReachingBottom :: "config \<Rightarrow> point \<Rightarrow> PlayState \<Rightarrow> PlayState" where
  "enemiesReachingBottom cfg offset ps =
     (case checkEnemyReachBottom (collision ps) (enemies ps) offset (bottomLine (GAMEPLAY cfg)) of
        (reached, collision') \<Rightarrow>
          if reached then handleEnemyReachBottom (ps\<lparr> collision := collision' \<rparr>)
          else ps\<lparr> collision := collision' \<rparr>)"

definition checkCollisions :: "config \<Rightarrow> PlayState \<Rightarrow> PlayState" where
  "checkCollisions cfg ps =
     (let ps0 = ps\<lparr> collision := clear (collision ps) \<rparr>;
          offset = getOffset (formation ps0)
      in enemiesReachingBottom cfg offset
           (powerAttackVsEnemies cfg offset
              (bulletsVsEnemies cfg offset ps0)))"

section \<open>Notions used in the statements\<close>

text \<open>
  A bullet's box overlaps the box of an enemy that is alive and not dying: the test the
  inner loop of \<open>checkBulletEnemyCollisions\<close> applies to each enemy.
\<close>

definition overlapsLive :: "rect \<Rightarrow> point \<Rightarrow> Enemy \<Rightarrow> bool" where
  "overlapsLive r formationOffset e \<longleftrightarrow>
     alive e \<and> \<not> dying e \<and> rectIntersect r (Enemy_getBounds e formationOffset)"

definition hits :: "point \<Rightarrow> Bullet \<Rightarrow> Enemy \<Rightarrow> bool" where
  "hits formationOffset b e \<longleftrightarrow>
     alive e \<and> \<not> dying e \<and>
     rectIntersect (Bullet_getBounds b) (Enemy_getBounds e formationOffset)"

text \<open>
  The world left and right edge of an enemy when the formation is at \<open>ox\<close>:
  \<open>worldX - enemy.width / 2\<close> and \<open>worldX + enemy.width / 2\<close>.
\<close>

definition leftEdge :: "real \<Rightarrow> Enemy \<Rightarrow> real" where
  "leftEdge ox e = localX e + ox - Enemy.width e / 2"

definition rightEdge :: "real \<Rightarrow> Enemy \<Rightarrow> real" where
  "rightEdge ox e = localX e + ox + Enemy.width e / 2"

text \<open>The world bottom edge of an enemy: \<open>worldPos.y + enemy.height / 2\<close>.\<close>

definition bottomEdge :: "point \<Rightarrow> Enemy \<Rightarrow> real" where
  "bottomEdge formationOffset e = localY e + point.y formationOffset + Enemy.height e / 2"

text \<open>The enemies the bullet and power-attack loops pass over: dead or dying.\<close>

definition skipped :: "Enemy \<Rightarrow> bool" where
  "skipped e \<longleftrightarrow> \<not> alive e \<or> dying e"

text \<open>A list of score entries in descending order of score.\<close>

definition sortedByScore :: "entry list \<Rightarrow> bool" where
  "sortedByScore xs \<longleftrightarrow> sorted_wrt (\<lambda>a b. entry.score a \<ge> entry.score b) xs"

text \<open>The entry \<open>{name, score, date}\<close> that \<open>saveScore\<close> appends.\<close>

definition new_entry :: "int \<Rightarrow> ScoreSystem \<Rightarrow> entry" where
  "new_entry now s = \<lparr> name = playerName s, entry.score = ScoreSystem.score s, date = now \<rparr>"

section \<open>Concrete inputs\<close>

text \<open>A rounding to whole numbers, downwards: far coarser than that of doubles.\<close>

definition whole :: "real \<Rightarrow> real" where
  "whole r = of_int \<lfloor>r\<rfloor>"

text \<open>
  Two neighbours of the top row of a wave and a bullet whose box overlaps both of them
  (the boxes of the enemies span 76..124 and 126..174, that of the bullet 123..127).
\<close>

definition first_enemy :: Enemy where
  "first_enemy = new_Enemy CONFIG 100 80 3"

definition second_enemy :: Enemy where
  "second_enemy = new_Enemy CONFIG 150 80 3"

definition straddling_bullet :: Bullet where
  "straddling_bullet = new_Bullet CONFIG 125 80 (- 500)"

definition origin :: point where
  "origin = \<lparr> point.x = 0, point.y = 0 \<rparr>"

definition no_events :: CollisionSystem where
  "no_events = \<lparr> events = [] \<rparr>"

text \<open>A formation about to reach the right bound, and one about to reach the left bound.\<close>

definition at_right_bound :: FormationController where
  "at_right_bound = (new_FormationController CONFIG)\<lparr> offsetX := 571 \<rparr>"

definition at_left_bound :: FormationController where
  "at_left_bound = (new_FormationController CONFIG)\<lparr> offsetX := 5, direction := -1 \<rparr>"

text \<open>
  A storage that works, a full scoreboard, a player who scored less than everyone on it,
  and eleven games with different scores.
\<close>

definition full_board :: "entry list" where
  "full_board = map (\<lambda>v. \<lparr> name = ''ACE'', entry.score = v, date = 0 \<rparr>)
     [1000, 900, 800, 700, 600, 500, 400, 300, 200, 100]"

definition working_storage :: "stored \<Rightarrow> localStorage" where
  "working_storage content = \<lparr> turiaScores = content, getItem_throws = False, setItem_throws = False \<rparr>"

definition eleven_games :: "(string \<times> int \<times> int) list" where
  "eleven_games = map (\<lambda>v. (''PLAYER'', v, 0)) [10, 20, 30, 40, 50, 60, 70, 80, 90, 100, 110]"

definition late_player :: ScoreSystem where
  "late_player = (new_ScoreSystem CONFIG)\<lparr> ScoreSystem.score := 50, playerName := ''LATE'' \<rparr>"

text \<open>
  A storage whose every call throws (as where \<open>localStorage\<close> does not exist); one that
  holds the full scoreboard and throws on writing (as when the quota is used up); and one
  that holds the full scoreboard and throws on reading only.
\<close>

definition unavailable_storage :: localStorage where
  "unavailable_storage = \<lparr> turiaScores = Absent, getItem_throws = True, setItem_throws = True \<rparr>"

definition readonly_storage :: localStorage where
  "readonly_storage =
     \<lparr> turiaScores = Array (map Entry full_board), getItem_throws = False, setItem_throws = True \<rparr>"

definition writeonly_storage :: localStorage where
  "writeonly_storage =
     \<lparr> turiaScores = Array (map Entry full_board), getItem_throws = True, setItem_throws = False \<rparr>"

text \<open>An enemy that a bullet has just hit, low enough to have crossed the bottom line.\<close>

definition low_dying_enemy :: Enemy where
  "low_dying_enemy = kill (new_Enemy CONFIG 100 460 1)"

definition low_bullet :: Bullet where
  "low_bullet = new_Bullet CONFIG 100 460 (- 500)"

section \<open>The overlap test\<close>

lemma rectIntersect_rounded_id: "rectIntersect_rounded (\<lambda>r. r) a b = rectIntersect a b"
  by (simp add: rectIntersect_rounded_def rectIntersect_def)

text \<open>
  Claim C2.  \<open>rectIntersect a b\<close> is the conjunction of the four strict comparisons; it is
  symmetric; two boxes of which one ends where the other starts, horizontally or
  vertically, do not intersect; and a box that lies inside another intersects it, when
  it has a positive width and height, as every box the game builds has, or when it has no
  negative extent and lies strictly inside.  The same holds with the additions rounded:
  the test is symmetric; a box whose computed far edge is the near edge of the other does
  not intersect it; and a box inside another intersects it whenever its own computed far
  edges lie beyond its near edges, that is, unless the rounding swallows its extent.
\<close>

theorem rectIntersect_rule:
  "(rectIntersect a b \<longleftrightarrow>
      rect.x a < rect.x b + rect.width b \<and> rect.x a + rect.width a > rect.x b \<and>
      rect.y a < rect.y b + rect.height b \<and> rect.y a + rect.height a > rect.y b)
   \<and> rectIntersect a b = rectIntersect b a
   \<and> (rect.x a + rect.width a = rect.x b \<or> rect.x b + rect.width b = rect.x a \<or>
        rect.y a + rect.height a = rect.y b \<or> rect.y b + rect.height b = rect.y a
        \<longrightarrow> \<not> rectIntersect a b)
   \<and> (0 < rect.width b \<and> 0 < rect.height b \<and>
        rect.x a \<le> rect.x b \<and> rect.x b + rect.width b \<le> rect.x a + rect.width a \<and>
        rect.y a \<le> rect.y b \<and> rect.y b + rect.height b \<le> rect.y a + rect.height a
        \<longrightarrow> rectIntersect a b)
   \<and> (0 \<le> rect.width b \<and> 0 \<le> rect.height b \<and>
        rect.x a < rect.x b \<and> rect.x b + rect.width b < rect.x a + rect.width a \<and>
        rect.y a < rect.y b \<and> rect.y b + rect.height b < rect.y a + rect.height a
        \<longrightarrow> rectIntersect a b)
   \<and> rectIntersect_rounded rnd a b = rectIntersect_rounded rnd b a
   \<and> (rnd (rect.x a + rect.width a) = rect.x b \<or> rnd (rect.x b + rect.width b) = rect.x a \<or>
        rnd (rect.y a + rect.height a) = rect.y b \<or> rnd (rect.y b + rect.height b) = rect.y a
        \<longrightarrow> \<not> rectIntersect_rounded rnd a b)
   \<and> (mono rnd \<and>
        rect.x b < rnd (rect.x b + rect.width b) \<and> rect.y b < rnd (rect.y b + rect.height b) \<and>
        rect.x a \<le> rect.x b \<and> rect.x b + rect.width b \<le> rect.x a + rect.width a \<and>
        rect.y a \<le> rect.y b \<and> rect.y b + rect.height b \<le> rect.y a + rect.height a
        \<longrightarrow> rectIntersect_rounded rnd a b)"
proof -
  have exact: "(rectIntersect a b \<longleftrightarrow>
      rect.x a < rect.x b + rect.width b \<and> rect.x a + rect.width a > rect.x b \<and>
      rect.y a < rect.y b + rect.height b \<and> rect.y a + rect.height a > rect.y b)
   \<and> rectIntersect a b = rectIntersect b a
   \<and> (rect.x a + rect.width a = rect.x b \<or> rect.x b + rect.width b = rect.x a \<or>
        rect.y a + rect.height a = rect.y b \<or> rect.y b + rect.height b = rect.y a
        \<longrightarrow> \<not> rectIntersect a b)
   \<and> (0 < rect.width b \<and> 0 < rect.height b \<and>
        rect.x a \<le> rect.x b \<and> rect.x b + rect.width b \<le> rect.x a + rect.width a \<and>
        rect.y a \<le> rect.y b \<and> rect.y b + rect.height b \<le> rect.y a + rect.height a
        \<longrightarrow> rectIntersect a b)
   \<and> (0 \<le> rect.width b \<and> 0 \<le> rect.height b \<and>
        rect.x a < rect.x b \<and> rect.x b + rect.width b < rect.x a + rect.width a \<and>
        rect.y a < rect.y b \<and> rect.y b + rect.height b < rect.y a + rect.height a
        \<longrightarrow> rectIntersect a b)"
    by (auto simp: rectIntersect_def)
  have sym: "rectIntersect_rounded rnd a b = rectIntersect_rounded rnd b a"
    by (auto simp: rectIntersect_rounded_def)
  have touch: "rnd (rect.x a + rect.width a) = rect.x b \<or> rnd (rect.x b + rect.width b) = rect.x a \<or>
        rnd (rect.y a + rect.height a) = rect.y b \<or> rnd (rect.y b + rect.height b) = rect.y a
        \<longrightarrow> \<not> rectIntersect_rounded rnd a b"
    by (auto simp: rectIntersect_rounded_def)
  have inside: "rectIntersect_rounded rnd a b"
    if m: "mono rnd"
      and bx: "rect.x b < rnd (rect.x b + rect.width b)"
      and by': "rect.y b < rnd (rect.y b + rect.height b)"
      and cx: "rect.x a \<le> rect.x b" "rect.x b + rect.width b \<le> rect.x a + rect.width a"
      and cy: "rect.y a \<le> rect.y b" "rect.y b + rect.height b \<le> rect.y a + rect.height a"
  proof -
    have "rnd (rect.x b + rect.width b) \<le> rnd (rect.x a + rect.width a)"
      using m cx(2) by (rule monoD)
    moreover have "rnd (rect.y b + rect.height b) \<le> rnd (rect.y a + rect.height a)"
      using m cy(2) by (rule monoD)
    ultimately show ?thesis
      using bx by' cx(1) cy(1) by (simp add: rectIntersect_rounded_def)
  qed
  from exact sym touch inside show ?thesis
    by blast
qed

theorem rectIntersect_rule_witness:
  "\<not> rectIntersect \<lparr> rect.x = 0, rect.y = 0, rect.width = 10, rect.height = 10 \<rparr>
                    \<lparr> rect.x = 10, rect.y = 0, rect.width = 10, rect.height = 10 \<rparr>
   \<and> rectIntersect \<lparr> rect.x = 0, rect.y = 0, rect.width = 20, rect.height = 20 \<rparr>
                   \<lparr> rect.x = 5, rect.y = 5, rect.width = 5, rect.height = 5 \<rparr>
   \<and> mono whole
   \<and> \<not> rectIntersect_rounded whole \<lparr> rect.x = 0, rect.y = 0, rect.width = 10, rect.height = 10 \<rparr>
                    \<lparr> rect.x = 10, rect.y = 0, rect.width = 10, rect.height = 10 \<rparr>
   \<and> rectIntersect_rounded whole \<lparr> rect.x = 0, rect.y = 0, rect.width = 20, rect.height = 20 \<rparr>
                   \<lparr> rect.x = 5, rect.y = 5, rect.width = 5, rect.height = 5 \<rparr>"
proof -
  let ?a = "\<lparr> rect.x = 0, rect.y = 0, rect.width = 10, rect.height = 10 \<rparr>"
  let ?b = "\<lparr> rect.x = 10, rect.y = 0, rect.width = 10, rect.height = 10 \<rparr>"
  let ?c = "\<lparr> rect.x = 0, rect.y = 0, rect.width = 20, rect.height = 20 \<rparr>"
  let ?d = "\<lparr> rect.x = 5, rect.y = 5, rect.width = 5, rect.height = 5 \<rparr>"
  have m: "mono whole"
    by (rule monoI) (simp add: whole_def floor_mono)
  note touching = rectIntersect_rule [of ?a ?b whole]
  note inside = rectIntersect_rule [of ?c ?d whole]
  from touching [THEN conjunct2, THEN conjunct2, THEN conjunct1]
  have r1: "\<not> rectIntersect ?a ?b"
    by simp
  from inside [THEN conjunct2, THEN conjunct2, THEN conjunct2, THEN conjunct1]
  have r2: "rectIntersect ?c ?d"
    by simp
  from touching [THEN conjunct2, THEN conjunct2, THEN conjunct2, THEN conjunct2, THEN conjunct2,
      THEN conjunct2, THEN conjunct1]
  have r3: "\<not> rectIntersect_rounded whole ?a ?b"
    by (simp add: whole_def)
  from m inside [THEN conjunct2, THEN conjunct2, THEN conjunct2, THEN conjunct2, THEN conjunct2,
      THEN conjunct2, THEN conjunct2]
  have r4: "rectIntersect_rounded whole ?c ?d"
    by (simp add: whole_def)
  from r1 r2 m r3 r4 show ?thesis
    by blast
qed

section \<open>Boss waves\<close>

lemma smod_eq_0_iff_dvd: "b \<noteq> 0 \<Longrightarrow> (a smod b = 0) = (b dvd (a::int))"
  by (auto simp: signed_modulo_int_def sgn_if abs_if mod_eq_0_iff_dvd split: if_splits)

text \<open>
  Claim C8.  \<open>shouldSpawnBoss\<close> holds for a wave number exactly when the number is positive
  and divisible by the configured interval, which is 3 in \<open>config.js\<close>; it never holds for
  wave 0.
\<close>

theorem shouldSpawnBoss_iff:
  "(shouldSpawnBoss cfg waveNumber \<longleftrightarrow>
      waveNumber > 0 \<and> bossSpawnWave (GAMEPLAY cfg) dvd waveNumber)
   \<and> bossSpawnWave (GAMEPLAY CONFIG) = 3
   \<and> \<not> shouldSpawnBoss cfg 0"
  by (auto simp: shouldSpawnBoss_def js_rem_def smod_eq_0_iff_dvd CONFIG_def)

section \<open>Shooting\<close>

text \<open>
  Claim C6.  With a cooldown of 0, \<open>shoot\<close> returns a bullet at
  \<open>(x, y - height / 2)\<close> whose vertical velocity is minus the configured bullet speed,
  hence negative for a positive speed such as that of \<open>config.js\<close>, and sets the cooldown
  to its maximum; with a positive cooldown it returns no bullet and changes nothing.
\<close>

theorem shoot_cooldown:
  "(Player.fireCooldown p = 0 \<longrightarrow>
      (\<exists>b. shoot cfg p = (Some b, p\<lparr> Player.fireCooldown := Player.fireCooldownMax p \<rparr>) \<and>
           Bullet.x b = Player.x p \<and>
           Bullet.y b = Player.y p - Player.height p / 2 \<and>
           Bullet.velocityY b = - bulletSpeed (GAMEPLAY cfg) \<and>
           (0 < bulletSpeed (GAMEPLAY cfg) \<longrightarrow> Bullet.velocityY b < 0)))
   \<and> 0 < bulletSpeed (GAMEPLAY CONFIG)
   \<and> (Player.fireCooldown p > 0 \<longrightarrow> shoot cfg p = (None, p))"
  by (auto simp: shoot_def new_Bullet_def CONFIG_def)

theorem shoot_cooldown_witness:
  "Player.fireCooldown (new_Player CONFIG 400 550) = 0 \<and> 0 < bulletSpeed (GAMEPLAY CONFIG) \<and>
   (\<exists>b. fst (shoot CONFIG (new_Player CONFIG 400 550)) = Some b \<and> Bullet.y b = 526 \<and>
        Bullet.velocityY b < 0) \<and>
   0 < Player.fireCooldown (snd (shoot CONFIG (new_Player CONFIG 400 550))) \<and>
   shoot CONFIG (snd (shoot CONFIG (new_Player CONFIG 400 550))) =
     (None, snd (shoot CONFIG (new_Player CONFIG 400 550)))"
proof -
  have a: "Player.fireCooldown (new_Player CONFIG 400 550) = 0 \<and> 0 < bulletSpeed (GAMEPLAY CONFIG)"
    by (simp add: new_Player_def CONFIG_def)
  have b: "0 < Player.fireCooldown (snd (shoot CONFIG (new_Player CONFIG 400 550)))"
    by (simp add: shoot_def new_Player_def CONFIG_def)
  have c: "Player.y (new_Player CONFIG 400 550) - Player.height (new_Player CONFIG 400 550) / 2 = 526"
    by (simp add: new_Player_def CONFIG_def)
  from a b c shoot_cooldown [of "new_Player CONFIG 400 550" CONFIG]
       shoot_cooldown [of "snd (shoot CONFIG (new_Player CONFIG 400 550))" CONFIG]
  show ?thesis by auto
qed

section \<open>Power and lives\<close>

lemma reachable_constructor: "reachable cfg (new_ScoreSystem cfg)"
proof -
  have "reset cfg (new_ScoreSystem cfg) = new_ScoreSystem cfg"
    by (simp add: reset_def new_ScoreSystem_def)
  with after_reset [of cfg "new_ScoreSystem cfg"] show ?thesis
    by simp
qed

lemma reachable_power_bounded:
  "reachable cfg s \<Longrightarrow> 0 \<le> ScoreSystem.turiaPowerMax s \<Longrightarrow> turiaPower s \<le> ScoreSystem.turiaPowerMax s"
  by (induction rule: reachable.induct)
     (auto simp: reset_def addKill_with_def addBossKill_def addPower_def consumePower_def
        loseLife_def Let_def)

text \<open>The gate, for a power that does not exceed a positive maximum.\<close>

lemma consumePower_clamped:
  assumes "turiaPower s \<le> ScoreSystem.turiaPowerMax s" and "0 < ScoreSystem.turiaPowerMax s"
  shows "(fst (consumePower s) \<longleftrightarrow> turiaPower s = ScoreSystem.turiaPowerMax s) \<and>
     (turiaPower s = ScoreSystem.turiaPowerMax s \<longrightarrow> consumePower s = (True, s\<lparr> turiaPower := 0 \<rparr>)) \<and>
     (turiaPower s \<noteq> ScoreSystem.turiaPowerMax s \<longrightarrow> consumePower s = (False, s)) \<and>
     (fst (consumePower s) \<longrightarrow>
        consumePower (snd (consumePower s)) = (False, snd (consumePower s)) \<and>
        turiaPower (snd (consumePower s)) = 0)"
  using assms by (auto simp: consumePower_def isPowerReady_def)

text \<open>
  Claim C4.  In every state a score system reaches from its construction or a reset
  through its methods, with a positive maximum (100 in \<open>config.js\<close>), the power does not
  exceed the maximum, and \<open>consumePower\<close>
  returns true and sets the power to 0 exactly when the power equals the maximum;
  otherwise it returns false and changes nothing; and a second call right after a
  successful one returns false and leaves the power at 0.
\<close>

theorem consumePower_gate:
  assumes "reachable cfg s" and "0 < ScoreSystem.turiaPowerMax s"
  shows "turiaPower s \<le> ScoreSystem.turiaPowerMax s \<and>
     (fst (consumePower s) \<longleftrightarrow> turiaPower s = ScoreSystem.turiaPowerMax s) \<and>
     (turiaPower s = ScoreSystem.turiaPowerMax s \<longrightarrow> consumePower s = (True, s\<lparr> turiaPower := 0 \<rparr>)) \<and>
     (turiaPower s \<noteq> ScoreSystem.turiaPowerMax s \<longrightarrow> consumePower s = (False, s)) \<and>
     (fst (consumePower s) \<longrightarrow>
        consumePower (snd (consumePower s)) = (False, snd (consumePower s)) \<and>
        turiaPower (snd (consumePower s)) = 0)"
proof -
  from assms have b: "turiaPower s \<le> ScoreSystem.turiaPowerMax s"
    by (simp add: reachable_power_bounded)
  from b consumePower_clamped [OF b assms(2)] show ?thesis
    by blast
qed

theorem consumePower_gate_witness:
  "reachable CONFIG (addPower 100 (new_ScoreSystem CONFIG)) \<and>
   0 < ScoreSystem.turiaPowerMax (addPower 100 (new_ScoreSystem CONFIG)) \<and>
   consumePower (addPower 100 (new_ScoreSystem CONFIG)) = (True, new_ScoreSystem CONFIG) \<and>
   consumePower (new_ScoreSystem CONFIG) = (False, new_ScoreSystem CONFIG) \<and>
   consumePower (addPower 50 (new_ScoreSystem CONFIG)) = (False, addPower 50 (new_ScoreSystem CONFIG))"
proof -
  let ?s0 = "new_ScoreSystem CONFIG"
  have r0: "reachable CONFIG ?s0"
    by (rule reachable_constructor)
  have r1: "reachable CONFIG (addPower 100 ?s0)" and r2: "reachable CONFIG (addPower 50 ?s0)"
    using r0 by (rule after_addPower)+
  have m: "0 < ScoreSystem.turiaPowerMax ?s0" "0 < ScoreSystem.turiaPowerMax (addPower 100 ?s0)"
    "0 < ScoreSystem.turiaPowerMax (addPower 50 ?s0)"
    by (simp_all add: addPower_def new_ScoreSystem_def CONFIG_def)
  have v: "turiaPower ?s0 = 0" "ScoreSystem.turiaPowerMax ?s0 = 100"
    "turiaPower (addPower 100 ?s0) = 100" "ScoreSystem.turiaPowerMax (addPower 100 ?s0) = 100"
    "turiaPower (addPower 50 ?s0) = 50" "ScoreSystem.turiaPowerMax (addPower 50 ?s0) = 100"
    "(addPower 100 ?s0)\<lparr> turiaPower := 0 \<rparr> = ?s0"
    by (simp_all add: addPower_def new_ScoreSystem_def CONFIG_def)
  from consumePower_gate [OF r0 m(1)] consumePower_gate [OF r1 m(2)] consumePower_gate [OF r2 m(3)]
    r1 m(2) v
  show ?thesis by simp
qed

lemma reachable_lives_nonneg:
  "reachable cfg s \<Longrightarrow> 0 \<le> livesMax (GAMEPLAY cfg) \<Longrightarrow> 0 \<le> lives s"
  by (induction rule: reachable.induct)
     (auto simp: reset_def addKill_with_def addBossKill_def addPower_def consumePower_def loseLife_def Let_def)

lemma lives_loseLives: "0 \<le> lives s \<Longrightarrow> lives (loseLives n s) = max 0 (lives s - int n)"
  by (induction n arbitrary: s) (auto simp: loseLife_def Let_def)

text \<open>
  Claim C7.  In every state reachable from \<open>reset\<close> (the configured number of lives not
  being negative), \<open>loseLife\<close> sets the lives to \<open>max 0 (lives - 1)\<close> and returns that
  number; after \<open>n\<close> calls the lives are \<open>max 0 (lives - n)\<close>, never negative, and 0 after
  \<open>livesMax + 5\<close> calls from the reset state; \<open>isGameOver\<close> holds exactly when the lives are 0.
\<close>

theorem loseLife_floor:
  assumes "reachable cfg s" and "0 \<le> livesMax (GAMEPLAY cfg)"
  shows "loseLife s = (max 0 (lives s - 1), s\<lparr> lives := max 0 (lives s - 1) \<rparr>)
    \<and> 0 \<le> fst (loseLife s)
    \<and> (\<forall>n. lives (loseLives n s) = max 0 (lives s - int n))
    \<and> (\<forall>n. 0 \<le> lives (loseLives n s))
    \<and> lives (loseLives (nat (livesMax (GAMEPLAY cfg)) + 5) (reset cfg s)) = 0
    \<and> (isGameOver s \<longleftrightarrow> lives s = 0)
    \<and> (\<forall>n. isGameOver (loseLives n s) \<longleftrightarrow> lives (loseLives n s) = 0)"
  using reachable_lives_nonneg [OF assms] assms(2)
  by (auto simp: loseLife_def Let_def isGameOver_def lives_loseLives reset_def)

theorem loseLife_floor_witness:
  "reachable CONFIG (reset CONFIG (new_ScoreSystem CONFIG)) \<and>
   0 \<le> livesMax (GAMEPLAY CONFIG) \<and>
   lives (loseLives 2 (reset CONFIG (new_ScoreSystem CONFIG))) = 1 \<and>
   \<not> isGameOver (loseLives 2 (reset CONFIG (new_ScoreSystem CONFIG))) \<and>
   lives (loseLives 8 (reset CONFIG (new_ScoreSystem CONFIG))) = 0 \<and>
   isGameOver (loseLives 8 (reset CONFIG (new_ScoreSystem CONFIG)))"
proof -
  have r: "reachable CONFIG (reset CONFIG (new_ScoreSystem CONFIG))"
    by (rule after_reset)
  have c: "0 \<le> livesMax (GAMEPLAY CONFIG)"
    by (simp add: CONFIG_def)
  have l: "lives (reset CONFIG (new_ScoreSystem CONFIG)) = 3"
    by (simp add: reset_def CONFIG_def)
  show ?thesis
    using r c l loseLife_floor [OF r c] by simp
qed

section \<open>Formation movement\<close>

lemma boundsLoop_Finite:
  "boundsLoop ox es (Finite a, Finite b) =
     (Finite (Min (insert a (leftEdge ox ` set es))), Finite (Max (insert b (rightEdge ox ` set es))))"
proof (induction es arbitrary: a b)
  case Nil
  then show ?case by simp
next
  case (Cons e es)
  have "Min (insert (min a (leftEdge ox e)) (leftEdge ox ` set es)) =
        Min (insert a (insert (leftEdge ox e) (leftEdge ox ` set es)))"
    by (cases "es = []") (simp_all add: min.assoc min.commute min.left_commute)
  moreover have "Max (insert (max b (rightEdge ox e)) (rightEdge ox ` set es)) =
        Max (insert b (insert (rightEdge ox e) (rightEdge ox ` set es)))"
    by (cases "es = []") (simp_all add: max.assoc max.commute max.left_commute)
  ultimately show ?case
    using Cons.IH by (simp add: Let_def leftEdge_def rightEdge_def)
qed

lemma boundsLoop_nonempty:
  "es \<noteq> [] \<Longrightarrow> boundsLoop ox es (Infinity, NegInfinity) =
     (Finite (Min (leftEdge ox ` set es)), Finite (Max (rightEdge ox ` set es)))"
  by (cases es) (simp_all add: boundsLoop_Finite Let_def, simp add: leftEdge_def rightEdge_def)

lemma update_closed_form:
  "update cfg dt es fc =
     (let live = filter (\<lambda>e. alive e \<or> dying e) es;
          x' = offsetX fc + FormationController.speed fc * direction fc * dt;
          bound = dims.width (CANVAS cfg) - enemyStartX (GAMEPLAY cfg);
          fc2 = fc\<lparr> maxX := bound, offsetX := x' \<rparr>
      in if live = [] then fc2
         else if Max (rightEdge x' ` set live) \<ge> bound \<and> direction fc > 0
         then fc2\<lparr> direction := -1, offsetY := offsetY fc + stepDownAmount fc \<rparr>
         else if Min (leftEdge x' ` set live) \<le> minX fc \<and> direction fc < 0
         then fc2\<lparr> direction := 1, offsetY := offsetY fc + stepDownAmount fc \<rparr>
         else fc2)"
  by (simp add: update_def Let_def boundsLoop_nonempty)

text \<open>
  Claim C3.  \<open>update\<close> moves \<open>offsetX\<close> by \<open>speed * direction * dt\<close> and never clamps it.
  The enemies that are neither alive nor dying play no part.  With no enemy left,
  direction and \<open>offsetY\<close> stay.  Otherwise, moving right (direction 1), the formation
  flips to direction -1 and steps down once exactly when the largest right edge has
  reached the right bound, which \<open>update\<close> first sets to the canvas width less the start
  margin; moving left (direction -1), it flips to 1 and steps down once exactly when the
  smallest left edge has reached \<open>minX\<close>.  A tick makes at most one flip.
\<close>

theorem update_flip:
  "let live = filter (\<lambda>e. alive e \<or> dying e) es;
       fc' = update cfg dt es fc;
       x' = offsetX fc + FormationController.speed fc * direction fc * dt;
       bound = dims.width (CANVAS cfg) - enemyStartX (GAMEPLAY cfg);
       minEnemyX = Min (leftEdge x' ` set live);
       maxEnemyX = Max (rightEdge x' ` set live)
   in offsetX fc' = x' \<and> maxX fc' = bound \<and> minX fc' = minX fc \<and>
      FormationController.speed fc' = FormationController.speed fc \<and>
      stepDownAmount fc' = stepDownAmount fc \<and>
      (live = [] \<longrightarrow> direction fc' = direction fc \<and> offsetY fc' = offsetY fc) \<and>
      (live \<noteq> [] \<and> direction fc = 1 \<and> maxEnemyX \<ge> bound \<longrightarrow>
         direction fc' = -1 \<and> offsetY fc' = offsetY fc + stepDownAmount fc) \<and>
      (live \<noteq> [] \<and> direction fc = 1 \<and> maxEnemyX < bound \<longrightarrow>
         direction fc' = 1 \<and> offsetY fc' = offsetY fc) \<and>
      (live \<noteq> [] \<and> direction fc = -1 \<and> minEnemyX \<le> minX fc \<longrightarrow>
         direction fc' = 1 \<and> offsetY fc' = offsetY fc + stepDownAmount fc) \<and>
      (live \<noteq> [] \<and> direction fc = -1 \<and> minEnemyX > minX fc \<longrightarrow>
         direction fc' = -1 \<and> offsetY fc' = offsetY fc) \<and>
      (direction fc' = direction fc \<and> offsetY fc' = offsetY fc \<or>
       direction fc' = (if direction fc > 0 then -1 else 1) \<and>
       offsetY fc' = offsetY fc + stepDownAmount fc) \<and>
      fc' = update cfg dt live fc"
proof -
  have idem: "filter (\<lambda>e. alive e \<or> dying e) (filter (\<lambda>e. alive e \<or> dying e) es) =
              filter (\<lambda>e. alive e \<or> dying e) es"
    by simp
  have same: "update cfg dt es fc = update cfg dt (filter (\<lambda>e. alive e \<or> dying e) es) fc"
    unfolding update_closed_form [of cfg dt es] update_closed_form [of cfg dt "filter (\<lambda>e. alive e \<or> dying e) es"] idem
    by (rule refl)
  show ?thesis
    unfolding Let_def same [symmetric]
    by (auto simp: update_closed_form [of cfg dt es] Let_def)
qed

theorem update_flip_witness:
  "direction (update CONFIG (1 / 10) [first_enemy] at_right_bound) = - 1 \<and>
   offsetY (update CONFIG (1 / 10) [first_enemy] at_right_bound) = 20 \<and>
   offsetX (update CONFIG (1 / 10) [first_enemy] at_right_bound) = 576 \<and>
   direction (update CONFIG (1 / 10) [first_enemy] at_left_bound) = 1 \<and>
   offsetY (update CONFIG (1 / 10) [first_enemy] at_left_bound) = 20 \<and>
   direction (update CONFIG (1 / 10) [] at_right_bound) = 1 \<and>
   offsetY (update CONFIG (1 / 10) [] at_right_bound) = 0"
proof -
  have e: "alive first_enemy" "localX first_enemy = 100" "Enemy.width first_enemy = 48"
    by (simp_all add: first_enemy_def new_Enemy_def CONFIG_def)
  have r: "offsetX at_right_bound = 571" "direction at_right_bound = 1"
    "FormationController.speed at_right_bound = 50" "stepDownAmount at_right_bound = 20"
    "offsetY at_right_bound = 0"
    by (simp_all add: at_right_bound_def new_FormationController_def CONFIG_def)
  have l: "offsetX at_left_bound = 5" "direction at_left_bound = - 1"
    "FormationController.speed at_left_bound = 50" "stepDownAmount at_left_bound = 20"
    "offsetY at_left_bound = 0" "minX at_left_bound = 100"
    by (simp_all add: at_left_bound_def new_FormationController_def CONFIG_def)
  have c: "dims.width (CANVAS CONFIG) - enemyStartX (GAMEPLAY CONFIG) = 700"
    by (simp add: CONFIG_def)
  show ?thesis
    using update_flip [of "[first_enemy]" CONFIG "1 / 10" at_right_bound]
          update_flip [of "[first_enemy]" CONFIG "1 / 10" at_left_bound]
          update_flip [of "[]" CONFIG "1 / 10" at_right_bound]
    by (simp add: Let_def e r l c leftEdge_def rightEdge_def)
qed

section \<open>Bullets against enemies\<close>

lemma scan_None:
  "bulletEnemyScan r off i es = (None, es') \<Longrightarrow>
     es' = es \<and> (\<forall>e\<in>set es. \<not> overlapsLive r off e)"
  by (induction es arbitrary: i es') (auto simp: overlapsLive_def split: if_splits prod.splits)

lemma scan_Some:
  "bulletEnemyScan r off i es = (Some j, es') \<Longrightarrow>
     i \<le> j \<and> j - i < length es \<and> overlapsLive r off (es ! (j - i)) \<and>
     (\<forall>k<j - i. \<not> overlapsLive r off (es ! k)) \<and>
     es' = es[j - i := kill (es ! (j - i))]"
proof (induction es arbitrary: i es')
  case Nil
  then show ?case by simp
next
  case (Cons e es)
  show ?case
  proof (cases "overlapsLive r off e")
    case True
    with Cons.prems show ?thesis by (auto simp: overlapsLive_def)
  next
    case False
    then obtain es'' where s: "bulletEnemyScan r off (Suc i) es = (Some j, es'')" and e: "es' = e # es''"
      using Cons.prems by (auto simp: overlapsLive_def split: if_splits prod.splits)
    from Cons.IH [OF s] have ih: "Suc i \<le> j" "j - Suc i < length es" "overlapsLive r off (es ! (j - Suc i))"
      "\<forall>k<j - Suc i. \<not> overlapsLive r off (es ! k)" "es'' = es[j - Suc i := kill (es ! (j - Suc i))]"
      by auto
    from ih(1) have ji: "j - i = Suc (j - Suc i)" by simp
    show ?thesis
      using ih False e unfolding ji
      by (auto simp: nth_Cons' less_Suc_eq_0_disj)
  qed
qed


lemma hits_overlapsLive: "hits off b e = overlapsLive (Bullet_getBounds b) off e"
  by (simp add: hits_def overlapsLive_def)

lemma kill_not_hit: "alive e \<Longrightarrow> \<not> hits off b (kill e)"
  by (simp add: hits_def kill_def)


lemma nth_Cons_shift: "Suc i \<le> k \<Longrightarrow> (b # bs) ! (k - i) = bs ! (k - Suc i)"
  by (simp add: nth_Cons' Suc_le_eq)

text \<open>The two ways one bullet can be processed.\<close>

lemma bulletLoop_Cons_cases:
  assumes "bulletLoop off i (b # bs) es = (evs, bs', es')"
  obtains
    (miss) bs1 where "bulletLoop off (Suc i) bs es = (evs, bs1, es')" "bs' = b # bs1"
      "Bullet.active b \<longrightarrow> (\<forall>j<length es. \<not> hits off b (es ! j))"
  | (hit) j0 evs1 bs1 where "bulletLoop off (Suc i) bs (es[j0 := kill (es ! j0)]) = (evs1, bs1, es')"
      "evs = bullet_enemy i j0 # evs1" "bs' = Bullet_destroy b # bs1"
      "Bullet.active b" "j0 < length es" "hits off b (es ! j0)" "\<forall>j<j0. \<not> hits off b (es ! j)"
proof (cases "Bullet.active b")
  case False
  with assms miss show ?thesis
    by (auto split: prod.splits)
next
  case True
  obtain r es1 where sc: "bulletEnemyScan (Bullet_getBounds b) off 0 es = (r, es1)"
    by (cases "bulletEnemyScan (Bullet_getBounds b) off 0 es")
  show ?thesis
  proof (cases r)
    case None
    from scan_None [OF sc [unfolded None]] have "es1 = es" "\<forall>j<length es. \<not> hits off b (es ! j)"
      by (auto simp: hits_overlapsLive)
    with assms True sc None miss show ?thesis
      by (auto split: prod.splits)
  next
    case (Some j0)
    from scan_Some [OF sc [unfolded Some]]
    have "j0 < length es" "hits off b (es ! j0)" "\<forall>j<j0. \<not> hits off b (es ! j)"
      "es1 = es[j0 := kill (es ! j0)]"
      by (auto simp: hits_overlapsLive)
    with assms True sc Some hit show ?thesis
      by (auto split: prod.splits)
  qed
qed

lemma bulletLoop_length:
  "bulletLoop off i bs es = (evs, bs', es') \<Longrightarrow> length bs' = length bs \<and> length es' = length es"
proof (induction bs arbitrary: i es evs bs' es')
  case Nil
  then show ?case by simp
next
  case (Cons b bs)
  from Cons.prems show ?case
  proof (cases rule: bulletLoop_Cons_cases)
    case (miss bs1)
    with Cons.IH [OF miss(1)] show ?thesis by simp
  next
    case (hit j0 evs1 bs1)
    with Cons.IH [OF hit(1)] show ?thesis by simp
  qed
qed

text \<open>What a run of the bullet loop from position i records.\<close>

lemma bulletLoop_events:
  "bulletLoop off i bs es = (evs, bs', es') \<Longrightarrow>
     sorted_wrt (<) (map bullet_of evs) \<and>
     distinct (map enemy_of evs) \<and>
     (\<forall>ev\<in>set evs. \<exists>k j. ev = bullet_enemy k j \<and> i \<le> k \<and> k < i + length bs \<and> j < length es \<and>
        Bullet.active (bs ! (k - i)) \<and> hits off (bs ! (k - i)) (es ! j) \<and>
        (\<forall>j'<j. hits off (bs ! (k - i)) (es ! j') \<longrightarrow>
            (\<exists>k'. i \<le> k' \<and> k' < k \<and> bullet_enemy k' j' \<in> set evs))) \<and>
     (\<forall>k. i \<le> k \<and> k < i + length bs \<longrightarrow>
        bs' ! (k - i) = (if \<exists>j. bullet_enemy k j \<in> set evs then Bullet_destroy (bs ! (k - i)) else bs ! (k - i))) \<and>
     (\<forall>j<length es. es' ! j = (if \<exists>k. bullet_enemy k j \<in> set evs then kill (es ! j) else es ! j)) \<and>
     (\<forall>k. i \<le> k \<and> k < i + length bs \<and> Bullet.active (bs ! (k - i)) \<and> (\<forall>j. bullet_enemy k j \<notin> set evs) \<longrightarrow>
        (\<forall>j<length es. hits off (bs ! (k - i)) (es ! j) \<longrightarrow>
            (\<exists>k'. i \<le> k' \<and> k' < k \<and> bullet_enemy k' j \<in> set evs)))"
proof (induction bs arbitrary: i es evs bs' es')
  case Nil
  then show ?case by auto
next
  case (Cons b bs)
  from Cons.prems show ?case
  proof (cases rule: bulletLoop_Cons_cases)
    case (miss bs1)
    note r = miss(1) and b' = miss(2) and nohit = miss(3)
    note ih = Cons.IH [OF r]
    note ih1 = ih [THEN conjunct1]
      and ih2 = ih [THEN conjunct2, THEN conjunct1]
      and ih3 = ih [THEN conjunct2, THEN conjunct2, THEN conjunct1]
      and ih4 = ih [THEN conjunct2, THEN conjunct2, THEN conjunct2, THEN conjunct1]
      and ih5 = ih [THEN conjunct2, THEN conjunct2, THEN conjunct2, THEN conjunct2, THEN conjunct1]
      and ih6 = ih [THEN conjunct2, THEN conjunct2, THEN conjunct2, THEN conjunct2, THEN conjunct2]
    have lo: "\<forall>ev\<in>set evs. \<exists>k j. ev = bullet_enemy k j \<and> Suc i \<le> k"
      using ih3 by blast
    have c1: "sorted_wrt (<) (map bullet_of evs)" and c2: "distinct (map enemy_of evs)"
      using ih1 ih2 by auto
    have c3: "\<forall>ev\<in>set evs. \<exists>k j. ev = bullet_enemy k j \<and> i \<le> k \<and> k < i + length (b # bs) \<and> j < length es \<and>
        Bullet.active ((b # bs) ! (k - i)) \<and> hits off ((b # bs) ! (k - i)) (es ! j) \<and>
        (\<forall>j'<j. hits off ((b # bs) ! (k - i)) (es ! j') \<longrightarrow>
            (\<exists>k'. i \<le> k' \<and> k' < k \<and> bullet_enemy k' j' \<in> set evs))"
    proof
      fix ev assume "ev \<in> set evs"
      with ih3 obtain k j where kj: "ev = bullet_enemy k j" "Suc i \<le> k" "k < Suc i + length bs" "j < length es"
        "Bullet.active (bs ! (k - Suc i))" "hits off (bs ! (k - Suc i)) (es ! j)"
        "\<forall>j'<j. hits off (bs ! (k - Suc i)) (es ! j') \<longrightarrow>
            (\<exists>k'. Suc i \<le> k' \<and> k' < k \<and> bullet_enemy k' j' \<in> set evs)"
        by blast
      have sh: "(b # bs) ! (k - i) = bs ! (k - Suc i)"
        using kj(2) by (rule nth_Cons_shift)
      have "\<forall>j'<j. hits off (bs ! (k - Suc i)) (es ! j') \<longrightarrow>
            (\<exists>k'. i \<le> k' \<and> k' < k \<and> bullet_enemy k' j' \<in> set evs)"
        using kj(7) by (meson Suc_leD)
      with kj sh show "\<exists>k j. ev = bullet_enemy k j \<and> i \<le> k \<and> k < i + length (b # bs) \<and> j < length es \<and>
        Bullet.active ((b # bs) ! (k - i)) \<and> hits off ((b # bs) ! (k - i)) (es ! j) \<and>
        (\<forall>j'<j. hits off ((b # bs) ! (k - i)) (es ! j') \<longrightarrow>
            (\<exists>k'. i \<le> k' \<and> k' < k \<and> bullet_enemy k' j' \<in> set evs))"
        by (intro exI [of _ k] exI [of _ j]) simp
    qed
    have c4: "\<forall>k. i \<le> k \<and> k < i + length (b # bs) \<longrightarrow>
        bs' ! (k - i) = (if \<exists>j. bullet_enemy k j \<in> set evs then Bullet_destroy ((b # bs) ! (k - i)) else (b # bs) ! (k - i))"
    proof (intro allI impI)
      fix k assume k: "i \<le> k \<and> k < i + length (b # bs)"
      show "bs' ! (k - i) = (if \<exists>j. bullet_enemy k j \<in> set evs then Bullet_destroy ((b # bs) ! (k - i)) else (b # bs) ! (k - i))"
      proof (cases "k = i")
        case True
        have "\<not> (\<exists>j. bullet_enemy i j \<in> set evs)"
          using lo by fastforce
        with True b' show ?thesis by simp
      next
        case False
        with k have k': "Suc i \<le> k \<and> k < Suc i + length bs" by simp
        with ih4 have "bs1 ! (k - Suc i) = (if \<exists>j. bullet_enemy k j \<in> set evs then Bullet_destroy (bs ! (k - Suc i)) else bs ! (k - Suc i))"
          by blast
        with k' b' show ?thesis by (simp add: nth_Cons_shift)
      qed
    qed
    have c5: "\<forall>j<length es. es' ! j = (if \<exists>k. bullet_enemy k j \<in> set evs then kill (es ! j) else es ! j)"
      using ih5 by blast
    have c6: "\<forall>k. i \<le> k \<and> k < i + length (b # bs) \<and> Bullet.active ((b # bs) ! (k - i)) \<and> (\<forall>j. bullet_enemy k j \<notin> set evs) \<longrightarrow>
        (\<forall>j<length es. hits off ((b # bs) ! (k - i)) (es ! j) \<longrightarrow>
            (\<exists>k'. i \<le> k' \<and> k' < k \<and> bullet_enemy k' j \<in> set evs))"
    proof (intro allI impI)
      fix k j assume k: "i \<le> k \<and> k < i + length (b # bs) \<and> Bullet.active ((b # bs) ! (k - i)) \<and> (\<forall>j. bullet_enemy k j \<notin> set evs)"
        and j: "j < length es" and h: "hits off ((b # bs) ! (k - i)) (es ! j)"
      have "k \<noteq> i" using k nohit j h by auto
      with k have k': "Suc i \<le> k" "k < Suc i + length bs" by simp_all
      have sh: "(b # bs) ! (k - i) = bs ! (k - Suc i)"
        using k'(1) by (rule nth_Cons_shift)
      have "Bullet.active (bs ! (k - Suc i))" "hits off (bs ! (k - Suc i)) (es ! j)"
        using k h sh by simp_all
      with ih6 [rule_format, of k j] k' k j have "\<exists>k'. Suc i \<le> k' \<and> k' < k \<and> bullet_enemy k' j \<in> set evs"
        by blast
      then show "\<exists>k'. i \<le> k' \<and> k' < k \<and> bullet_enemy k' j \<in> set evs"
        by (meson Suc_leD)
    qed
    from c1 c2 c3 c4 c5 c6 show ?thesis by (intro conjI)
  next
    case (hit j0 evs1 bs1)
    let ?es1 = "es[j0 := kill (es ! j0)]"
    note ih = Cons.IH [OF hit(1)]
    note ih1 = ih [THEN conjunct1]
      and ih2 = ih [THEN conjunct2, THEN conjunct1]
      and ih3 = ih [THEN conjunct2, THEN conjunct2, THEN conjunct1]
      and ih4 = ih [THEN conjunct2, THEN conjunct2, THEN conjunct2, THEN conjunct1]
      and ih5 = ih [THEN conjunct2, THEN conjunct2, THEN conjunct2, THEN conjunct2, THEN conjunct1]
      and ih6 = ih [THEN conjunct2, THEN conjunct2, THEN conjunct2, THEN conjunct2, THEN conjunct2]
    have alive0: "alive (es ! j0)"
      using hit(6) by (simp add: hits_def)
    have es1_j0: "\<And>b'. \<not> hits off b' (?es1 ! j0)"
      using hit(5) alive0 by (simp add: kill_not_hit)
    have es1_other: "\<And>j. j \<noteq> j0 \<Longrightarrow> ?es1 ! j = es ! j"
      by simp
    have hits_es1: "\<And>b' j. hits off b' (?es1 ! j) \<Longrightarrow> j \<noteq> j0 \<and> hits off b' (es ! j)"
      using es1_j0 es1_other by metis
    have rest: "\<forall>ev\<in>set evs1. \<exists>k j. ev = bullet_enemy k j \<and> Suc i \<le> k \<and> j \<noteq> j0"
    proof
      fix ev assume "ev \<in> set evs1"
      with ih3 obtain k j where "ev = bullet_enemy k j" "Suc i \<le> k"
        "hits off (bs ! (k - Suc i)) (?es1 ! j)"
        by blast
      with hits_es1 show "\<exists>k j. ev = bullet_enemy k j \<and> Suc i \<le> k \<and> j \<noteq> j0"
        by blast
    qed
    have later: "\<forall>ev\<in>set evs1. i < bullet_of ev"
      using rest by fastforce
    have others: "\<forall>ev\<in>set evs1. enemy_of ev \<noteq> j0"
      using rest by fastforce
    have in_evs: "\<And>k j. bullet_enemy k j \<in> set evs \<longleftrightarrow> (k = i \<and> j = j0) \<or> bullet_enemy k j \<in> set evs1"
      using hit(2) by auto
    have no_i: "\<And>j. bullet_enemy i j \<notin> set evs1"
      using rest by fastforce
    have no_j0: "\<And>k. bullet_enemy k j0 \<notin> set evs1"
      using rest by fastforce
    have c1: "sorted_wrt (<) (map bullet_of evs)"
      using ih1 later hit(2) by simp
    have c2: "distinct (map enemy_of evs)"
      using ih2 others hit(2) by auto
    have c3: "\<forall>ev\<in>set evs. \<exists>k j. ev = bullet_enemy k j \<and> i \<le> k \<and> k < i + length (b # bs) \<and> j < length es \<and>
        Bullet.active ((b # bs) ! (k - i)) \<and> hits off ((b # bs) ! (k - i)) (es ! j) \<and>
        (\<forall>j'<j. hits off ((b # bs) ! (k - i)) (es ! j') \<longrightarrow>
            (\<exists>k'. i \<le> k' \<and> k' < k \<and> bullet_enemy k' j' \<in> set evs))"
    proof
      fix ev assume "ev \<in> set evs"
      then consider "ev = bullet_enemy i j0" | "ev \<in> set evs1"
        using hit(2) by auto
      then show "\<exists>k j. ev = bullet_enemy k j \<and> i \<le> k \<and> k < i + length (b # bs) \<and> j < length es \<and>
        Bullet.active ((b # bs) ! (k - i)) \<and> hits off ((b # bs) ! (k - i)) (es ! j) \<and>
        (\<forall>j'<j. hits off ((b # bs) ! (k - i)) (es ! j') \<longrightarrow>
            (\<exists>k'. i \<le> k' \<and> k' < k \<and> bullet_enemy k' j' \<in> set evs))"
      proof cases
        case 1
        with hit(4-7) show ?thesis
          by (intro exI [of _ i] exI [of _ j0]) simp
      next
        case 2
        with ih3 obtain k j where kj: "ev = bullet_enemy k j" "Suc i \<le> k" "k < Suc i + length bs" "j < length ?es1"
          "Bullet.active (bs ! (k - Suc i))" "hits off (bs ! (k - Suc i)) (?es1 ! j)"
          "\<forall>j'<j. hits off (bs ! (k - Suc i)) (?es1 ! j') \<longrightarrow>
              (\<exists>k'. Suc i \<le> k' \<and> k' < k \<and> bullet_enemy k' j' \<in> set evs1)"
          by blast
        have sh: "(b # bs) ! (k - i) = bs ! (k - Suc i)"
          using kj(2) by (rule nth_Cons_shift)
        have h: "hits off (bs ! (k - Suc i)) (es ! j)"
          using hits_es1 [OF kj(6)] by simp
        have first: "\<forall>j'<j. hits off (bs ! (k - Suc i)) (es ! j') \<longrightarrow>
              (\<exists>k'. i \<le> k' \<and> k' < k \<and> bullet_enemy k' j' \<in> set evs)"
        proof (intro allI impI)
          fix j' assume j': "j' < j" and hj': "hits off (bs ! (k - Suc i)) (es ! j')"
          show "\<exists>k'. i \<le> k' \<and> k' < k \<and> bullet_enemy k' j' \<in> set evs"
          proof (cases "j' = j0")
            case True
            with kj(2) in_evs show ?thesis
              by (intro exI [of _ i]) simp
          next
            case False
            with hj' have "hits off (bs ! (k - Suc i)) (?es1 ! j')" by simp
            with kj(7) j' obtain k' where "Suc i \<le> k'" "k' < k" "bullet_enemy k' j' \<in> set evs1"
              by blast
            with in_evs show ?thesis
              by (intro exI [of _ k']) simp
          qed
        qed
        from kj sh h first show ?thesis
          by (intro exI [of _ k] exI [of _ j]) simp
      qed
    qed
    have c4: "\<forall>k. i \<le> k \<and> k < i + length (b # bs) \<longrightarrow>
        bs' ! (k - i) = (if \<exists>j. bullet_enemy k j \<in> set evs then Bullet_destroy ((b # bs) ! (k - i)) else (b # bs) ! (k - i))"
    proof (intro allI impI)
      fix k assume k: "i \<le> k \<and> k < i + length (b # bs)"
      show "bs' ! (k - i) = (if \<exists>j. bullet_enemy k j \<in> set evs then Bullet_destroy ((b # bs) ! (k - i)) else (b # bs) ! (k - i))"
      proof (cases "k = i")
        case True
        have "\<exists>j. bullet_enemy i j \<in> set evs"
          using in_evs by blast
        with True hit(3) show ?thesis by simp
      next
        case False
        with k have k': "Suc i \<le> k \<and> k < Suc i + length bs" by simp
        with ih4 have "bs1 ! (k - Suc i) = (if \<exists>j. bullet_enemy k j \<in> set evs1 then Bullet_destroy (bs ! (k - Suc i)) else bs ! (k - Suc i))"
          by blast
        moreover have "(\<exists>j. bullet_enemy k j \<in> set evs) \<longleftrightarrow> (\<exists>j. bullet_enemy k j \<in> set evs1)"
          using in_evs False by simp
        ultimately show ?thesis
          using k' hit(3) by (simp add: nth_Cons_shift)
      qed
    qed
    have c5: "\<forall>j<length es. es' ! j = (if \<exists>k. bullet_enemy k j \<in> set evs then kill (es ! j) else es ! j)"
    proof (intro allI impI)
      fix j assume j: "j < length es"
      with ih5 have e: "es' ! j = (if \<exists>k. bullet_enemy k j \<in> set evs1 then kill (?es1 ! j) else ?es1 ! j)"
        by simp
      show "es' ! j = (if \<exists>k. bullet_enemy k j \<in> set evs then kill (es ! j) else es ! j)"
      proof (cases "j = j0")
        case True
        have "\<exists>k. bullet_enemy k j0 \<in> set evs"
          using in_evs by blast
        with True e no_j0 j show ?thesis by simp
      next
        case False
        then have "(\<exists>k. bullet_enemy k j \<in> set evs) \<longleftrightarrow> (\<exists>k. bullet_enemy k j \<in> set evs1)"
          using in_evs by simp
        with False e show ?thesis by simp
      qed
    qed
    have c6: "\<forall>k. i \<le> k \<and> k < i + length (b # bs) \<and> Bullet.active ((b # bs) ! (k - i)) \<and> (\<forall>j. bullet_enemy k j \<notin> set evs) \<longrightarrow>
        (\<forall>j<length es. hits off ((b # bs) ! (k - i)) (es ! j) \<longrightarrow>
            (\<exists>k'. i \<le> k' \<and> k' < k \<and> bullet_enemy k' j \<in> set evs))"
    proof (intro allI impI)
      fix k j assume k: "i \<le> k \<and> k < i + length (b # bs) \<and> Bullet.active ((b # bs) ! (k - i)) \<and> (\<forall>j. bullet_enemy k j \<notin> set evs)"
        and j: "j < length es" and h: "hits off ((b # bs) ! (k - i)) (es ! j)"
      have "k \<noteq> i" using k in_evs by blast
      with k have k': "Suc i \<le> k" "k < Suc i + length bs" by simp_all
      have sh: "(b # bs) ! (k - i) = bs ! (k - Suc i)"
        using k'(1) by (rule nth_Cons_shift)
      show "\<exists>k'. i \<le> k' \<and> k' < k \<and> bullet_enemy k' j \<in> set evs"
      proof (cases "j = j0")
        case True
        with k'(1) in_evs show ?thesis
          by (intro exI [of _ i]) simp
      next
        case False
        with h sh have "hits off (bs ! (k - Suc i)) (?es1 ! j)" by simp
        moreover have "\<forall>j. bullet_enemy k j \<notin> set evs1"
          using k in_evs by blast
        moreover have "Bullet.active (bs ! (k - Suc i))"
          using k sh by simp
        moreover have "j < length ?es1"
          using j by simp
        ultimately have "\<exists>k'. Suc i \<le> k' \<and> k' < k \<and> bullet_enemy k' j \<in> set evs1"
          using ih6 [rule_format, of k j] k' by blast
        then obtain k'' where "Suc i \<le> k''" "k'' < k" "bullet_enemy k'' j \<in> set evs1"
          by blast
        with in_evs show ?thesis
          by (intro exI [of _ k'']) simp
      qed
    qed
    from c1 c2 c3 c4 c5 c6 show ?thesis by (intro conjI)
  qed
qed


lemma score_addKills:
  "ScoreSystem.score (addKills cfg evs s) =
     ScoreSystem.score s + scorePerKill (GAMEPLAY cfg) * int (length evs)"
  unfolding addKills_def
  by (induction evs arbitrary: s)
     (simp_all add: addKill_def addKill_with_def addPower_def algebra_simps)

lemma kill_hit: "hits off b e \<Longrightarrow> alive (kill e) \<and> dying (kill e) \<and> deathTimer (kill e) = deathDuration e"
  by (simp add: hits_def kill_def)

lemma kill_skipped: "\<not> alive e \<or> dying e \<Longrightarrow> \<not> hits off b e"
  by (auto simp: hits_def)

text \<open>
  Claim C1.  Let \<open>checkBulletEnemyCollisions\<close> return \<open>hit_events\<close> and leave the bullets
  \<open>bs'\<close> and the enemies \<open>es'\<close>.  The events are appended to the buffer and are in the
  order of the bullets, with at most one event for a bullet and at most one for an
  enemy.  An event pairs an active bullet with an enemy that was alive and not dying and
  whose box the bullet's box overlaps, and every enemy before it in the list that the
  bullet also overlaps had been hit by an earlier bullet; after the call the bullet is
  inactive and the enemy is dying.  The bullets and enemies of the events are the only
  ones changed.  An active bullet without an event overlaps no alive, non-dying enemy
  but those that earlier bullets hit.  Enemies that were dying or dead are left as they
  were and occur in no event.  The play state adds \<open>scorePerKill\<close> once for each event.
\<close>

theorem checkBulletEnemyCollisions_first_hit:
  assumes "checkBulletEnemyCollisions cs bs es off = (hit_events, cs', bs', es')"
  shows "events cs' = events cs @ hit_events \<and>
     length bs' = length bs \<and> length es' = length es \<and>
     sorted_wrt (<) (map bullet_of hit_events) \<and>
     distinct (map enemy_of hit_events) \<and>
     (\<forall>ev\<in>set hit_events. \<exists>k j. ev = bullet_enemy k j \<and> k < length bs \<and> j < length es \<and>
        Bullet.active (bs ! k) \<and> hits off (bs ! k) (es ! j) \<and>
        (\<forall>j'<j. hits off (bs ! k) (es ! j') \<longrightarrow> (\<exists>k'<k. bullet_enemy k' j' \<in> set hit_events)) \<and>
        \<not> Bullet.active (bs' ! k) \<and> alive (es' ! j) \<and> dying (es' ! j)) \<and>
     (\<forall>k<length bs. bs' ! k =
        (if \<exists>j. bullet_enemy k j \<in> set hit_events then Bullet_destroy (bs ! k) else bs ! k)) \<and>
     (\<forall>j<length es. es' ! j =
        (if \<exists>k. bullet_enemy k j \<in> set hit_events then kill (es ! j) else es ! j)) \<and>
     (\<forall>k<length bs. Bullet.active (bs ! k) \<and> (\<forall>j. bullet_enemy k j \<notin> set hit_events) \<longrightarrow>
        (\<forall>j<length es. hits off (bs ! k) (es ! j) \<longrightarrow> (\<exists>k'<k. bullet_enemy k' j \<in> set hit_events))) \<and>
     (\<forall>j<length es. \<not> alive (es ! j) \<or> dying (es ! j) \<longrightarrow>
        es' ! j = es ! j \<and> (\<forall>k. bullet_enemy k j \<notin> set hit_events)) \<and>
     ScoreSystem.score (addKills cfg hit_events s) =
       ScoreSystem.score s + scorePerKill (GAMEPLAY cfg) * int (length hit_events) \<and>
     ScoreSystem.score (PlayState.score
         (bulletsVsEnemies cfg off \<lparr> bullets = bs, enemies = es, formation = fc, collision = cs,
                                     PlayState.score = s, powerAttack = pa \<rparr>)) =
       ScoreSystem.score s + scorePerKill (GAMEPLAY cfg) * int (length hit_events)"
proof -
  from assms have loop: "bulletLoop off 0 bs es = (hit_events, bs', es')"
    and cs': "cs' = cs\<lparr> events := events cs @ hit_events \<rparr>"
    by (auto simp: checkBulletEnemyCollisions_def split: prod.splits)
  note len = bulletLoop_length [OF loop]
  note inv = bulletLoop_events [OF loop]
  note inv1 = inv [THEN conjunct1]
    and inv2 = inv [THEN conjunct2, THEN conjunct1]
    and inv3 = inv [THEN conjunct2, THEN conjunct2, THEN conjunct1]
    and inv4 = inv [THEN conjunct2, THEN conjunct2, THEN conjunct2, THEN conjunct1]
    and inv5 = inv [THEN conjunct2, THEN conjunct2, THEN conjunct2, THEN conjunct2, THEN conjunct1]
    and inv6 = inv [THEN conjunct2, THEN conjunct2, THEN conjunct2, THEN conjunct2, THEN conjunct2]
  have c4: "\<forall>k<length bs. bs' ! k =
        (if \<exists>j. bullet_enemy k j \<in> set hit_events then Bullet_destroy (bs ! k) else bs ! k)"
    using inv4 by simp
  have c5: "\<forall>j<length es. es' ! j =
        (if \<exists>k. bullet_enemy k j \<in> set hit_events then kill (es ! j) else es ! j)"
    using inv5 by simp
  have c3: "\<forall>ev\<in>set hit_events. \<exists>k j. ev = bullet_enemy k j \<and> k < length bs \<and> j < length es \<and>
        Bullet.active (bs ! k) \<and> hits off (bs ! k) (es ! j) \<and>
        (\<forall>j'<j. hits off (bs ! k) (es ! j') \<longrightarrow> (\<exists>k'<k. bullet_enemy k' j' \<in> set hit_events)) \<and>
        \<not> Bullet.active (bs' ! k) \<and> alive (es' ! j) \<and> dying (es' ! j)"
  proof
    fix ev assume ev: "ev \<in> set hit_events"
    with inv3 obtain k j where kj: "ev = bullet_enemy k j" "k < length bs" "j < length es"
      "Bullet.active (bs ! k)" "hits off (bs ! k) (es ! j)"
      "\<forall>j'<j. hits off (bs ! k) (es ! j') \<longrightarrow> (\<exists>k'<k. bullet_enemy k' j' \<in> set hit_events)"
      by fastforce
    have "bs' ! k = Bullet_destroy (bs ! k)"
      using c4 kj(1,2) ev by auto
    moreover have "es' ! j = kill (es ! j)"
      using c5 kj(1,3) ev by auto
    ultimately have "\<not> Bullet.active (bs' ! k) \<and> alive (es' ! j) \<and> dying (es' ! j)"
      using kill_hit [OF kj(5)] by (simp add: Bullet_destroy_def)
    with kj show "\<exists>k j. ev = bullet_enemy k j \<and> k < length bs \<and> j < length es \<and>
        Bullet.active (bs ! k) \<and> hits off (bs ! k) (es ! j) \<and>
        (\<forall>j'<j. hits off (bs ! k) (es ! j') \<longrightarrow> (\<exists>k'<k. bullet_enemy k' j' \<in> set hit_events)) \<and>
        \<not> Bullet.active (bs' ! k) \<and> alive (es' ! j) \<and> dying (es' ! j)"
      by (intro exI [of _ k] exI [of _ j]) simp
  qed
  have c6: "\<forall>k<length bs. Bullet.active (bs ! k) \<and> (\<forall>j. bullet_enemy k j \<notin> set hit_events) \<longrightarrow>
        (\<forall>j<length es. hits off (bs ! k) (es ! j) \<longrightarrow> (\<exists>k'<k. bullet_enemy k' j \<in> set hit_events))"
    using inv6 by simp
  have c7: "\<forall>j<length es. \<not> alive (es ! j) \<or> dying (es ! j) \<longrightarrow>
        es' ! j = es ! j \<and> (\<forall>k. bullet_enemy k j \<notin> set hit_events)"
  proof (intro allI impI)
    fix j assume j: "j < length es" and d: "\<not> alive (es ! j) \<or> dying (es ! j)"
    have no: "\<forall>k. bullet_enemy k j \<notin> set hit_events"
    proof (intro allI notI)
      fix k assume "bullet_enemy k j \<in> set hit_events"
      with c3 have "\<exists>k'. hits off (bs ! k') (es ! j)" by fastforce
      with kill_skipped [OF d] show False by blast
    qed
    with c5 j show "es' ! j = es ! j \<and> (\<forall>k. bullet_enemy k j \<notin> set hit_events)"
      by simp
  qed
  have c8: "ScoreSystem.score (PlayState.score
         (bulletsVsEnemies cfg off \<lparr> bullets = bs, enemies = es, formation = fc, collision = cs,
                                     PlayState.score = s, powerAttack = pa \<rparr>)) =
       ScoreSystem.score s + scorePerKill (GAMEPLAY cfg) * int (length hit_events)"
    using assms by (simp add: bulletsVsEnemies_def score_addKills)
  from cs' len inv1 inv2 c3 c4 c5 c6 c7 c8 score_addKills [of cfg hit_events s] show ?thesis
    by simp
qed

theorem checkBulletEnemyCollisions_first_hit_witness:
  "checkBulletEnemyCollisions no_events [straddling_bullet] [first_enemy, second_enemy] origin =
     ([bullet_enemy 0 0], \<lparr> events = [bullet_enemy 0 0] \<rparr>,
      [Bullet_destroy straddling_bullet], [kill first_enemy, second_enemy]) \<and>
   hits origin straddling_bullet first_enemy \<and>
   hits origin straddling_bullet second_enemy \<and>
   dying (kill first_enemy) \<and> \<not> dying second_enemy \<and>
   ScoreSystem.score (PlayState.score
     (bulletsVsEnemies CONFIG origin
        \<lparr> bullets = [straddling_bullet], enemies = [first_enemy, second_enemy],
          formation = new_FormationController CONFIG, collision = no_events,
          PlayState.score = new_ScoreSystem CONFIG, powerAttack = None \<rparr>)) = 10"
proof -
  have h: "hits origin straddling_bullet first_enemy" "hits origin straddling_bullet second_enemy"
    by (simp_all add: hits_def straddling_bullet_def first_enemy_def second_enemy_def origin_def
          new_Bullet_def new_Enemy_def CONFIG_def Bullet_getBounds_def Enemy_getBounds_def
          getWorldPosition_def rectIntersect_def)
  have run: "checkBulletEnemyCollisions no_events [straddling_bullet] [first_enemy, second_enemy] origin =
     ([bullet_enemy 0 0], \<lparr> events = [bullet_enemy 0 0] \<rparr>,
      [Bullet_destroy straddling_bullet], [kill first_enemy, second_enemy])"
    using h by (simp add: checkBulletEnemyCollisions_def hits_def no_events_def straddling_bullet_def new_Bullet_def)
  have d: "\<not> dying second_enemy"
    by (simp add: second_enemy_def new_Enemy_def)
  from checkBulletEnemyCollisions_first_hit [OF run, of CONFIG "new_ScoreSystem CONFIG"
      "new_FormationController CONFIG" None]
  show ?thesis
    using run h d by (simp add: new_ScoreSystem_def CONFIG_def)
qed

section \<open>Reaching the bottom line, power attacks\<close>

lemma reachBottomScan_None:
  "reachBottomScan off bl i es = None \<longleftrightarrow> (\<forall>e\<in>set es. \<not> (alive e \<and> bl \<le> bottomEdge off e))"
  by (induction es arbitrary: i) (auto simp: bottomEdge_def getWorldPosition_def Let_def)

lemma reachBottomScan_Some:
  "reachBottomScan off bl i es = Some j \<Longrightarrow>
     i \<le> j \<and> j - i < length es \<and> alive (es ! (j - i)) \<and> bl \<le> bottomEdge off (es ! (j - i)) \<and>
     (\<forall>k<j - i. \<not> (alive (es ! k) \<and> bl \<le> bottomEdge off (es ! k)))"
proof (induction es arbitrary: i)
  case Nil
  then show ?case by simp
next
  case (Cons e es)
  show ?case
  proof (cases "alive e \<and> bl \<le> bottomEdge off e")
    case True
    with Cons.prems show ?thesis
      by (auto simp: bottomEdge_def getWorldPosition_def Let_def)
  next
    case False
    with Cons.prems have s: "reachBottomScan off bl (Suc i) es = Some j"
      by (auto simp: bottomEdge_def getWorldPosition_def Let_def split: if_splits)
    from Cons.IH [OF s] have ih: "Suc i \<le> j" "j - Suc i < length es" "alive (es ! (j - Suc i))"
      "bl \<le> bottomEdge off (es ! (j - Suc i))"
      "\<forall>k<j - Suc i. \<not> (alive (es ! k) \<and> bl \<le> bottomEdge off (es ! k))"
      by auto
    from ih(1) have ji: "j - i = Suc (j - Suc i)" by simp
    show ?thesis
      using ih False unfolding ji
      by (auto simp: nth_Cons' less_Suc_eq_0_disj)
  qed
qed

lemma powerEnemyScan_skips:
  "powerEnemyScan r off i j es = (evs, es') \<Longrightarrow>
     length es' = length es \<and>
     (\<forall>ev\<in>set evs. \<exists>k. ev = power_enemy i k \<and> j \<le> k \<and> k - j < length es \<and> \<not> skipped (es ! (k - j))) \<and>
     (\<forall>k<length es. skipped (es ! k) \<longrightarrow> es' ! k = es ! k)"
proof (induction es arbitrary: j evs es')
  case Nil
  then show ?case by simp
next
  case (Cons e es)
  obtain evs1 es1 where r: "powerEnemyScan r off i (Suc j) es = (evs1, es1)"
    by (cases "powerEnemyScan r off i (Suc j) es")
  note ih = Cons.IH [OF r]
  have tail: "\<forall>ev\<in>set evs1. \<exists>k. ev = power_enemy i k \<and> j \<le> k \<and> k - j < length (e # es) \<and>
      \<not> skipped ((e # es) ! (k - j))"
  proof
    fix ev assume "ev \<in> set evs1"
    with ih obtain k where k: "ev = power_enemy i k" "Suc j \<le> k" "k - Suc j < length es"
      "\<not> skipped (es ! (k - Suc j))"
      by blast
    then have "k - j = Suc (k - Suc j)" by simp
    with k show "\<exists>k. ev = power_enemy i k \<and> j \<le> k \<and> k - j < length (e # es) \<and>
      \<not> skipped ((e # es) ! (k - j))"
      by (intro exI [of _ k]) simp
  qed
  have shape: "(evs = evs1 \<and> es' = e # es1) \<or>
     (\<not> skipped e \<and> evs = power_enemy i j # evs1 \<and> es' = kill e # es1)"
    using Cons.prems r by (auto simp: skipped_def split: if_splits)
  have c1: "length es' = length (e # es)"
    using shape ih by auto
  have c2: "\<forall>ev\<in>set evs. \<exists>k. ev = power_enemy i k \<and> j \<le> k \<and> k - j < length (e # es) \<and>
      \<not> skipped ((e # es) ! (k - j))"
    using shape tail by auto
  have c3: "\<forall>k<length (e # es). skipped ((e # es) ! k) \<longrightarrow> es' ! k = (e # es) ! k"
    using shape ih by (auto simp: nth_Cons')
  from c1 c2 c3 show ?case by blast
qed

lemma projectileLoop_skips:
  "projectileLoop off i ps es = (evs, es') \<Longrightarrow>
     length es' = length es \<and>
     (\<forall>ev\<in>set evs. \<exists>p k. ev = power_enemy p k \<and> k < length es \<and> \<not> skipped (es ! k)) \<and>
     (\<forall>k<length es. skipped (es ! k) \<longrightarrow> es' ! k = es ! k)"
proof (induction ps arbitrary: i es evs es')
  case Nil
  then show ?case by simp
next
  case (Cons p ps)
  show ?case
  proof (cases "PowerProjectile.active p")
    case False
    with Cons.prems have "projectileLoop off (Suc i) ps es = (evs, es')"
      by simp
    from Cons.IH [OF this] show ?thesis .
  next
    case True
    obtain hs es1 where sc: "powerEnemyScan (PowerProjectile_getBounds p) off i 0 es = (hs, es1)"
      by (cases "powerEnemyScan (PowerProjectile_getBounds p) off i 0 es")
    obtain evs2 es2 where r: "projectileLoop off (Suc i) ps es1 = (evs2, es2)"
      by (cases "projectileLoop off (Suc i) ps es1")
    from Cons.prems True sc r have res: "evs = hs @ evs2" "es' = es2"
      by simp_all
    note a = powerEnemyScan_skips [OF sc]
    note b = Cons.IH [OF r]
    have a1: "length es1 = length es" and a3: "\<forall>k<length es. skipped (es ! k) \<longrightarrow> es1 ! k = es ! k"
      using a by blast+
    have a2: "\<forall>ev\<in>set hs. \<exists>p k. ev = power_enemy p k \<and> k < length es \<and> \<not> skipped (es ! k)"
      using a by fastforce
    have b1: "length es2 = length es1" and b3: "\<forall>k<length es1. skipped (es1 ! k) \<longrightarrow> es2 ! k = es1 ! k"
      using b by blast+
    have b2: "\<forall>ev\<in>set evs2. \<exists>p k. ev = power_enemy p k \<and> k < length es1 \<and> \<not> skipped (es1 ! k)"
      using b by blast
    have b2': "\<forall>ev\<in>set evs2. \<exists>p k. ev = power_enemy p k \<and> k < length es \<and> \<not> skipped (es ! k)"
    proof
      fix ev assume "ev \<in> set evs2"
      with b2 obtain q k where k: "ev = power_enemy q k" "k < length es1" "\<not> skipped (es1 ! k)"
        by blast
      with a1 a3 have "\<not> skipped (es ! k)" by auto
      with k a1 show "\<exists>p k. ev = power_enemy p k \<and> k < length es \<and> \<not> skipped (es ! k)"
        by (intro exI [of _ q] exI [of _ k]) simp
    qed
    have c3: "\<forall>k<length es. skipped (es ! k) \<longrightarrow> es' ! k = es ! k"
      using a1 a3 b3 res by auto
    from a1 b1 a2 b2' c3 res show ?thesis by auto
  qed
qed


lemma bulletLoop_skips:
  assumes "bulletLoop off 0 bs es = (evs, bs', es')"
  shows "length es' = length es \<and>
     (\<forall>ev\<in>set evs. \<exists>k j. ev = bullet_enemy k j \<and> j < length es \<and> \<not> skipped (es ! j)) \<and>
     (\<forall>j<length es. skipped (es ! j) \<longrightarrow> es' ! j = es ! j)"
proof -
  note inv = bulletLoop_events [OF assms]
  note inv3 = inv [THEN conjunct2, THEN conjunct2, THEN conjunct1]
    and inv5 = inv [THEN conjunct2, THEN conjunct2, THEN conjunct2, THEN conjunct2, THEN conjunct1]
  have c2: "\<forall>ev\<in>set evs. \<exists>k j. ev = bullet_enemy k j \<and> j < length es \<and> \<not> skipped (es ! j)"
  proof
    fix ev assume "ev \<in> set evs"
    with inv3 obtain k j where "ev = bullet_enemy k j" "j < length es" "hits off (bs ! (k - 0)) (es ! j)"
      by blast
    then show "\<exists>k j. ev = bullet_enemy k j \<and> j < length es \<and> \<not> skipped (es ! j)"
      by (intro exI [of _ k] exI [of _ j]) (simp add: hits_def skipped_def)
  qed
  have c3: "\<forall>j<length es. skipped (es ! j) \<longrightarrow> es' ! j = es ! j"
  proof (intro allI impI)
    fix j assume j: "j < length es" and sk: "skipped (es ! j)"
    have "\<not> (\<exists>k. bullet_enemy k j \<in> set evs)"
      using c2 sk by fastforce
    with inv5 j show "es' ! j = es ! j" by simp
  qed
  from bulletLoop_length [OF assms] c2 c3 show ?thesis by blast
qed

lemma lives_addKills: "lives (addKills cfg evs s) = lives s"
  unfolding addKills_def
  by (induction evs arbitrary: s) (simp_all add: addKill_def addKill_with_def addPower_def)

text \<open>An enemy that is skipped stays in the list, unchanged, through both blocks.\<close>

lemma skipped_stays:
  assumes "length es' = length es" and "\<forall>j<length es. skipped (es ! j) \<longrightarrow> es' ! j = es ! j"
    and "e \<in> set es" and "skipped e"
  shows "e \<in> set es'"
proof -
  from assms(3) obtain j where j: "j < length es" "es ! j = e"
    by (auto simp: in_set_conv_nth)
  with assms(2,4) have "es' ! j = e" by simp
  with j(1) assms(1) show ?thesis
    by (auto simp: in_set_conv_nth)
qed

lemma bulletsVsEnemies_keeps:
  "e \<in> set (enemies ps) \<Longrightarrow> skipped e \<Longrightarrow> e \<in> set (enemies (bulletsVsEnemies cfg off ps))"
proof -
  assume e: "e \<in> set (enemies ps)" "skipped e"
  obtain evs bs' es' where l: "bulletLoop off 0 (bullets ps) (enemies ps) = (evs, bs', es')"
    by (cases "bulletLoop off 0 (bullets ps) (enemies ps)")
  from bulletLoop_skips [OF l] e have "e \<in> set es'"
    by (intro skipped_stays [of es' "enemies ps"]) blast+
  with l show ?thesis
    by (simp add: bulletsVsEnemies_def checkBulletEnemyCollisions_def)
qed

lemma powerAttackVsEnemies_keeps:
  "e \<in> set (enemies ps) \<Longrightarrow> skipped e \<Longrightarrow> e \<in> set (enemies (powerAttackVsEnemies cfg off ps))"
proof -
  assume e: "e \<in> set (enemies ps)" "skipped e"
  show ?thesis
  proof (cases "powerAttack ps")
    case None
    with e show ?thesis by (simp add: powerAttackVsEnemies_def)
  next
    case (Some pa)
    obtain evs es' where l: "projectileLoop off 0 (getProjectiles pa) (enemies ps) = (evs, es')"
      by (cases "projectileLoop off 0 (getProjectiles pa) (enemies ps)")
    from projectileLoop_skips [OF l] e have "e \<in> set es'"
      by (intro skipped_stays [of es' "enemies ps"]) blast+
    with l Some e show ?thesis
      by (simp add: powerAttackVsEnemies_def checkPowerAttackEnemyCollisions_def)
  qed
qed

lemma lives_bulletsVsEnemies:
  "lives (PlayState.score (bulletsVsEnemies cfg off ps)) = lives (PlayState.score ps)"
  by (simp add: bulletsVsEnemies_def lives_addKills split: prod.splits)

lemma lives_powerAttackVsEnemies:
  "lives (PlayState.score (powerAttackVsEnemies cfg off ps)) = lives (PlayState.score ps)"
  by (simp add: powerAttackVsEnemies_def lives_addKills split: prod.splits option.splits)

lemma enemiesReachingBottom_loses_life:
  assumes "e \<in> set (enemies ps)" and "alive e" and "bottomLine (GAMEPLAY cfg) \<le> bottomEdge off e"
  shows "lives (PlayState.score (enemiesReachingBottom cfg off ps)) = max 0 (lives (PlayState.score ps) - 1) \<and>
    (\<exists>j. events (collision (enemiesReachingBottom cfg off ps)) =
          events (collision ps) @ [enemy_reach_bottom j])"
proof -
  have "reachBottomScan off (bottomLine (GAMEPLAY cfg)) 0 (enemies ps) \<noteq> None"
    using assms by (auto simp: reachBottomScan_None)
  then obtain j where "reachBottomScan off (bottomLine (GAMEPLAY cfg)) 0 (enemies ps) = Some j"
    by blast
  then show ?thesis
    by (simp add: enemiesReachingBottom_def checkEnemyReachBottom_def handleEnemyReachBottom_def
        loseLife_def Let_def)
qed

lemma kill_dying_state:
  "alive e \<Longrightarrow> alive (kill e) \<and> dying (kill e) \<and> deathTimer (kill e) = deathDuration e \<and>
     localY (kill e) = localY e \<and> Enemy.height (kill e) = Enemy.height e"
  by (simp add: kill_def)

text \<open>
  Claim C10.  \<open>checkEnemyReachBottom\<close> returns true exactly when some enemy whose \<open>alive\<close>
  flag is set has its bottom edge on or below the bottom line; \<open>dying\<close> is not looked at.
  So an enemy that is alive and dying and that low makes it return true and record an
  \<open>enemy_reach_bottom\<close> event, for the first enemy in the list that is alive and that low;
  and \<open>checkCollisions\<close> then takes a life and ends the event buffer with that event.  The
  events of the bullet loop and of the power-attack loop only name enemies that were alive
  and not dying.  \<open>kill\<close> puts an alive enemy into the dying state, with the death timer set
  to the full duration, where it was.
\<close>

theorem dying_enemy_reaches_bottom:
  "(fst (checkEnemyReachBottom cs es off bl) \<longleftrightarrow> (\<exists>e\<in>set es. alive e \<and> bl \<le> bottomEdge off e)) \<and>
   (e \<in> set es \<and> alive e \<and> dying e \<and> bl \<le> bottomEdge off e \<longrightarrow>
      fst (checkEnemyReachBottom cs es off bl) \<and>
      (\<exists>j<length es. events (snd (checkEnemyReachBottom cs es off bl)) = events cs @ [enemy_reach_bottom j] \<and>
          alive (es ! j) \<and> bl \<le> bottomEdge off (es ! j) \<and>
          (\<forall>k<j. \<not> (alive (es ! k) \<and> bl \<le> bottomEdge off (es ! k))))) \<and>
   (e \<in> set (enemies ps) \<and> alive e \<and> dying e \<and>
    bottomLine (GAMEPLAY cfg) \<le> bottomEdge (getOffset (formation ps)) e \<longrightarrow>
      lives (PlayState.score (checkCollisions cfg ps)) = max 0 (lives (PlayState.score ps) - 1) \<and>
      (\<exists>j earlier. events (collision (checkCollisions cfg ps)) = earlier @ [enemy_reach_bottom j])) \<and>
   (\<forall>k j. bullet_enemy k j \<in> set (fst (checkBulletEnemyCollisions cs bs es off)) \<longrightarrow>
      j < length es \<and> alive (es ! j) \<and> \<not> dying (es ! j)) \<and>
   (\<forall>k j. power_enemy k j \<in> set (fst (checkPowerAttackEnemyCollisions cs prs es off)) \<longrightarrow>
      j < length es \<and> alive (es ! j) \<and> \<not> dying (es ! j)) \<and>
   (alive e \<and> \<not> dying e \<longrightarrow>
      alive (kill e) \<and> dying (kill e) \<and> deathTimer (kill e) = deathDuration e \<and>
      bottomEdge off (kill e) = bottomEdge off e)"
proof -
  have A: "fst (checkEnemyReachBottom cs es off bl) \<longleftrightarrow> (\<exists>e\<in>set es. alive e \<and> bl \<le> bottomEdge off e)"
    using reachBottomScan_None [of off bl 0 es]
    by (cases "reachBottomScan off bl 0 es") (simp_all add: checkEnemyReachBottom_def)
  have B: "fst (checkEnemyReachBottom cs es off bl) \<and>
      (\<exists>j<length es. events (snd (checkEnemyReachBottom cs es off bl)) = events cs @ [enemy_reach_bottom j] \<and>
          alive (es ! j) \<and> bl \<le> bottomEdge off (es ! j) \<and>
          (\<forall>k<j. \<not> (alive (es ! k) \<and> bl \<le> bottomEdge off (es ! k))))"
    if "e \<in> set es" "alive e" "bl \<le> bottomEdge off e"
  proof -
    from that A have t: "fst (checkEnemyReachBottom cs es off bl)" by blast
    then obtain j where j: "reachBottomScan off bl 0 es = Some j"
      by (cases "reachBottomScan off bl 0 es") (simp_all add: checkEnemyReachBottom_def)
    from reachBottomScan_Some [OF j] j t show ?thesis
      by (simp add: checkEnemyReachBottom_def)
  qed
  have C: "lives (PlayState.score (checkCollisions cfg ps)) = max 0 (lives (PlayState.score ps) - 1) \<and>
      (\<exists>j earlier. events (collision (checkCollisions cfg ps)) = earlier @ [enemy_reach_bottom j])"
    if e: "e \<in> set (enemies ps)" "alive e" "dying e"
      and low: "bottomLine (GAMEPLAY cfg) \<le> bottomEdge (getOffset (formation ps)) e"
  proof -
    let ?off = "getOffset (formation ps)"
    let ?ps0 = "ps\<lparr> collision := clear (collision ps) \<rparr>"
    let ?ps1 = "bulletsVsEnemies cfg ?off ?ps0"
    let ?ps2 = "powerAttackVsEnemies cfg ?off ?ps1"
    have sk: "skipped e" using e(3) by (simp add: skipped_def)
    have "e \<in> set (enemies ?ps0)" using e(1) by simp
    then have "e \<in> set (enemies ?ps1)" using sk by (rule bulletsVsEnemies_keeps)
    then have in2: "e \<in> set (enemies ?ps2)" using sk by (rule powerAttackVsEnemies_keeps)
    have l2: "lives (PlayState.score ?ps2) = lives (PlayState.score ps)"
      by (simp add: lives_powerAttackVsEnemies lives_bulletsVsEnemies)
    have cc: "checkCollisions cfg ps = enemiesReachingBottom cfg ?off ?ps2"
      by (simp add: checkCollisions_def Let_def)
    from enemiesReachingBottom_loses_life [OF in2 e(2) low] l2 show ?thesis
      unfolding cc by auto
  qed
  have D: "j < length es \<and> alive (es ! j) \<and> \<not> dying (es ! j)"
    if "bullet_enemy k j \<in> set (fst (checkBulletEnemyCollisions cs bs es off))" for k j
  proof -
    obtain evs bs' es' where l: "bulletLoop off 0 bs es = (evs, bs', es')"
      by (cases "bulletLoop off 0 bs es")
    with that have "bullet_enemy k j \<in> set evs"
      by (simp add: checkBulletEnemyCollisions_def)
    with bulletLoop_skips [OF l] show ?thesis
      by (fastforce simp: skipped_def)
  qed
  have E: "j < length es \<and> alive (es ! j) \<and> \<not> dying (es ! j)"
    if "power_enemy k j \<in> set (fst (checkPowerAttackEnemyCollisions cs prs es off))" for k j
  proof -
    obtain evs es' where l: "projectileLoop off 0 prs es = (evs, es')"
      by (cases "projectileLoop off 0 prs es")
    with that have "power_enemy k j \<in> set evs"
      by (simp add: checkPowerAttackEnemyCollisions_def)
    with projectileLoop_skips [OF l] show ?thesis
      by (fastforce simp: skipped_def)
  qed
  have F: "alive (kill e) \<and> dying (kill e) \<and> deathTimer (kill e) = deathDuration e \<and>
      bottomEdge off (kill e) = bottomEdge off e" if "alive e"
    using kill_dying_state [OF that] by (simp add: bottomEdge_def)
  from A B C D E F show ?thesis by blast
qed

theorem dying_enemy_reaches_bottom_witness:
  "alive low_dying_enemy \<and> dying low_dying_enemy \<and> deathTimer low_dying_enemy = 200 \<and>
   bottomLine (GAMEPLAY CONFIG) \<le> bottomEdge origin low_dying_enemy \<and>
   rectIntersect (Bullet_getBounds low_bullet) (Enemy_getBounds low_dying_enemy origin) \<and>
   fst (checkBulletEnemyCollisions no_events [low_bullet] [low_dying_enemy] origin) = [] \<and>
   checkEnemyReachBottom no_events [low_dying_enemy] origin (bottomLine (GAMEPLAY CONFIG)) =
     (True, \<lparr> events = [enemy_reach_bottom 0] \<rparr>) \<and>
   lives (PlayState.score (checkCollisions CONFIG
     \<lparr> bullets = [low_bullet], enemies = [low_dying_enemy],
       formation = new_FormationController CONFIG, collision = no_events,
       PlayState.score = new_ScoreSystem CONFIG, powerAttack = None \<rparr>)) = 2"
proof -
  let ?ps = "\<lparr> bullets = [low_bullet], enemies = [low_dying_enemy],
       formation = new_FormationController CONFIG, collision = no_events,
       PlayState.score = new_ScoreSystem CONFIG, powerAttack = None \<rparr>"
  have e: "alive low_dying_enemy" "dying low_dying_enemy" "deathTimer low_dying_enemy = 200"
    "localY low_dying_enemy = 460" "Enemy.height low_dying_enemy = 48"
    "localX low_dying_enemy = 100" "Enemy.width low_dying_enemy = 48"
    by (simp_all add: low_dying_enemy_def kill_def new_Enemy_def CONFIG_def)
  have low: "bottomLine (GAMEPLAY CONFIG) \<le> bottomEdge origin low_dying_enemy"
    by (simp add: bottomEdge_def e origin_def CONFIG_def)
  have o: "getOffset (formation ?ps) = origin"
    by (simp add: getOffset_def new_FormationController_def origin_def)
  have ov: "rectIntersect (Bullet_getBounds low_bullet) (Enemy_getBounds low_dying_enemy origin)"
    by (simp add: rectIntersect_def Bullet_getBounds_def Enemy_getBounds_def getWorldPosition_def
        low_bullet_def new_Bullet_def e origin_def CONFIG_def)
  have none: "fst (checkBulletEnemyCollisions no_events [low_bullet] [low_dying_enemy] origin) = []"
    by (simp add: checkBulletEnemyCollisions_def e low_bullet_def new_Bullet_def)
  have l: "lives (PlayState.score ?ps) = 3"
    by (simp add: new_ScoreSystem_def CONFIG_def)
  note t = dying_enemy_reaches_bottom [of no_events "[low_dying_enemy]" origin
      "bottomLine (GAMEPLAY CONFIG)" low_dying_enemy ?ps CONFIG "[low_bullet]" "[]"]
  from t e low have "fst (checkEnemyReachBottom no_events [low_dying_enemy] origin (bottomLine (GAMEPLAY CONFIG)))
    \<and> (\<exists>j<length [low_dying_enemy]. events (snd (checkEnemyReachBottom no_events [low_dying_enemy] origin (bottomLine (GAMEPLAY CONFIG)))) =
        events no_events @ [enemy_reach_bottom j])"
    by auto
  then have r: "checkEnemyReachBottom no_events [low_dying_enemy] origin (bottomLine (GAMEPLAY CONFIG)) =
     (True, \<lparr> events = [enemy_reach_bottom 0] \<rparr>)"
    by (cases "checkEnemyReachBottom no_events [low_dying_enemy] origin (bottomLine (GAMEPLAY CONFIG))")
       (auto simp: no_events_def)
  from t e low o l have "lives (PlayState.score (checkCollisions CONFIG ?ps)) = 2"
    by simp
  with e low ov none r show ?thesis by simp
qed

section \<open>The scoreboard\<close>

lemma sortedByScore_sorted: "sortedByScore xs \<longleftrightarrow> sorted (map (\<lambda>e. - entry.score e) xs)"
  by (simp add: sortedByScore_def sorted_map)

lemma sortedByScore_sortDescending: "sortedByScore (sortDescending xs)"
  by (simp add: sortedByScore_sorted sortDescending_def)

lemma mset_sortDescending: "mset (sortDescending xs) = mset xs"
  by (simp add: sortDescending_def)

lemma sortDescending_sorted_id: "sortedByScore xs \<Longrightarrow> sortDescending xs = xs"
  by (simp add: sortedByScore_sorted sortDescending_def sort_key_id_if_sorted)

lemma sortedByScore_take: "sortedByScore xs \<Longrightarrow> sortedByScore (take n xs)"
  by (simp add: sortedByScore_def sorted_wrt_take)

lemma those_entries: "those (map entryOf (map Entry es)) = Some es"
  by (induction es) simp_all

lemma Null_not_entry: "Null \<notin> set (map Entry es)"
  by auto

lemma sortByScore_entries: "sortByScore engine (map Entry es) = Inr (map Entry (sortDescending es))"
proof (cases "length es < 2")
  case True
  then have "sortDescending es = es"
    by (cases es rule: list.exhaust [case_product list.exhaust [of "tl es"]])
       (auto simp: sortDescending_def)
  with True show ?thesis
    by (simp add: sortByScore_def)
next
  case False
  then show ?thesis
    unfolding sortByScore_def using those_entries [of es] Null_not_entry [of es]
    by (simp del: set_map map_map)
qed

lemma sortByScore_Null:
  "Null \<in> set scores \<Longrightarrow> 2 \<le> length scores \<Longrightarrow> sortByScore engine scores = Inl Exception"
  by (simp add: sortByScore_def)

lemma saveScore_rejected:
  "playerName s = [] \<or> ScoreSystem.score s \<le> 0 \<Longrightarrow> saveScore engine now s st = (False, st)"
  by (auto simp: saveScore_def)

lemma saveScore_accepted:
  assumes "playerName s \<noteq> []" and "0 < ScoreSystem.score s" and "\<not> setItem_throws st"
    and "getScoreboard st = map Entry board"
  shows "saveScore engine now s st =
       (True, st\<lparr> turiaScores := Array (map Entry (take 10 (sortDescending (board @ [new_entry now s])))) \<rparr>)"
proof -
  have "getScoreboard st @ [Entry (new_entry now s)] = map Entry (board @ [new_entry now s])"
    using assms(4) by simp
  then have "sortByScore engine (getScoreboard st @ [Entry (new_entry now s)]) =
      Inr (map Entry (sortDescending (board @ [new_entry now s])))"
    by (simp only: sortByScore_entries)
  then show ?thesis
    using assms(1-3) by (simp add: saveScore_def setItem_def Let_def new_entry_def take_map)
qed

lemma saveScore_fails:
  assumes "playerName s \<noteq> []" and "0 < ScoreSystem.score s"
    and "setItem_throws st \<or> Null \<in> set (getScoreboard st)"
  shows "saveScore engine now s st = (False, st)"
proof (cases "Null \<in> set (getScoreboard st)")
  case True
  then have "sortByScore engine (getScoreboard st @ [Entry (new_entry now s)]) = Inl Exception"
    by (intro sortByScore_Null) (auto simp: Suc_le_eq)
  with assms show ?thesis
    by (simp add: saveScore_def Let_def new_entry_def)
next
  case False
  with assms(3) have "setItem_throws st"
    by simp
  with assms(1,2) show ?thesis
    by (simp add: saveScore_def setItem_def Let_def split: sum.split)
qed

lemma getScoreboard_written:
  "\<not> getItem_throws st \<Longrightarrow> getScoreboard (st\<lparr> turiaScores := Array xs \<rparr>) = xs"
  by (simp add: getScoreboard_def getItem_def)

lemma saveScores_board:
  "\<forall>(n, v, t)\<in>set gs. n \<noteq> [] \<and> 0 < v \<Longrightarrow> \<not> getItem_throws st \<Longrightarrow> \<not> setItem_throws st \<Longrightarrow>
   getScoreboard st = map Entry board \<Longrightarrow>
     \<exists>top. getScoreboard (saveScores engine gs s st) = map Entry top \<and>
       (gs \<noteq> [] \<longrightarrow> length top = min 10 (length board + length gs) \<and> sortedByScore top) \<and>
       mset (map entry.score top) \<subseteq># mset (map entry.score board @ map (fst \<circ> snd) gs)"
proof (induction gs arbitrary: st board)
  case Nil
  then show ?case by auto
next
  case (Cons g gs)
  obtain n v t where g: "g = (n, v, t)" by (cases g)
  let ?s = "s\<lparr> playerName := n, ScoreSystem.score := v \<rparr>"
  let ?board = "take 10 (sortDescending (board @ [new_entry t ?s]))"
  let ?st1 = "st\<lparr> turiaScores := Array (map Entry ?board) \<rparr>"
  have ok: "playerName ?s \<noteq> []" "0 < ScoreSystem.score ?s"
    using Cons.prems(1) g by auto
  have step: "saveScore engine t ?s st = (True, ?st1)"
    using ok Cons.prems(3,4) by (rule saveScore_accepted)
  have unfold: "saveScores engine (g # gs) s st = saveScores engine gs s ?st1"
    using g step by simp
  have flags: "\<not> getItem_throws ?st1" "\<not> setItem_throws ?st1"
    using Cons.prems by simp_all
  have board1: "getScoreboard ?st1 = map Entry ?board"
    using Cons.prems(2) by (rule getScoreboard_written)
  have rest: "\<forall>(n, v, t)\<in>set gs. n \<noteq> [] \<and> 0 < v"
    using Cons.prems(1) by simp
  from Cons.IH [OF rest flags board1] obtain top
    where top: "getScoreboard (saveScores engine gs s ?st1) = map Entry top"
      and shape: "gs \<noteq> [] \<longrightarrow> length top = min 10 (length ?board + length gs) \<and> sortedByScore top"
      and sub: "mset (map entry.score top) \<subseteq># mset (map entry.score ?board @ map (fst \<circ> snd) gs)"
    by blast
  have len1: "length ?board = min 10 (length board + 1)"
    by (simp add: sortDescending_def)
  have sorted1: "sortedByScore ?board"
    by (intro sortedByScore_take sortedByScore_sortDescending)
  have "mset ?board \<subseteq># mset (sortDescending (board @ [new_entry t ?s]))"
    by (metis append_take_drop_id mset_append mset_subset_eq_add_left)
  then have "mset ?board \<subseteq># mset (board @ [new_entry t ?s])"
    by (simp only: mset_sortDescending)
  then have "image_mset entry.score (mset ?board) \<subseteq># image_mset entry.score (mset (board @ [new_entry t ?s]))"
    by (rule image_mset_subseteq_mono)
  then have sub1: "mset (map entry.score ?board) \<subseteq># mset (map entry.score board @ [v])"
    by (simp add: new_entry_def)
  have top1: "gs = [] \<Longrightarrow> top = ?board"
  proof -
    assume "gs = []"
    with top board1 have "map Entry top = map Entry ?board"
      by simp
    then show "top = ?board"
      by (simp add: inj_on_def map_eq_conv del: map_eq_conv)
  qed
  have c1: "getScoreboard (saveScores engine (g # gs) s st) = map Entry top"
    unfolding unfold by (rule top)
  have c2: "length top = min 10 (length board + length (g # gs))"
  proof (cases "gs = []")
    case True
    with len1 top1 show ?thesis by simp
  next
    case False
    with shape have "length top = min 10 (length ?board + length gs)"
      by blast
    with len1 show ?thesis by simp
  qed
  have c3: "sortedByScore top"
  proof (cases "gs = []")
    case True
    with sorted1 top1 show ?thesis by simp
  next
    case False
    with shape show ?thesis by blast
  qed
  note sub
  also have "mset (map entry.score ?board @ map (fst \<circ> snd) gs) \<subseteq>#
      mset ((map entry.score board @ [v]) @ map (fst \<circ> snd) gs)"
    using sub1 by (simp del: mset_map)
  finally have c4: "mset (map entry.score top) \<subseteq>#
       mset (map entry.score board @ map (fst \<circ> snd) (g # gs))"
    using g by simp
  from c1 c2 c3 c4 show ?case
    by blast
qed

lemma distinct_sub_mset:
  assumes "mset xs \<subseteq># mset ys" and "distinct ys"
  shows "distinct xs"
proof -
  have le: "count (mset xs) a \<le> 1" for a
  proof -
    have "count (mset xs) a \<le> count (mset ys) a"
      using assms(1) by (rule mset_subset_eq_count)
    also have "\<dots> \<le> 1"
      using assms(2) by (simp add: distinct_count_atmost_1)
    finally show ?thesis .
  qed
  have "count (mset xs) a = (if a \<in> set xs then 1 else 0)" for a
  proof (cases "a \<in> set xs")
    case True
    then have "0 < count (mset xs) a"
      by (simp only: count_greater_zero_iff set_mset_mset)
    with le [of a] have "count (mset xs) a = 1" by linarith
    with True show ?thesis by (simp only: if_True)
  next
    case False
    then show ?thesis by simp
  qed
  then show ?thesis
    by (simp add: distinct_count_atmost_1)
qed

lemma strictly_descending:
  "sortedByScore xs \<Longrightarrow> distinct (map entry.score xs) \<Longrightarrow>
     sorted_wrt (\<lambda>a b. entry.score a > entry.score b) xs"
  unfolding sortedByScore_def
  by (induction xs) (auto simp: less_le image_iff)

lemma insort_key_append_last:
  "f a \<le> f e \<Longrightarrow> insort_key f a (ys @ [e]) = insort_key f a ys @ [e]"
  by (induction ys) auto

lemma sort_key_append_last:
  "\<forall>x\<in>set xs. f x \<le> f e \<Longrightarrow> sort_key f (xs @ [e]) = sort_key f xs @ [e]"
proof (induction xs)
  case Nil
  then show ?case by simp
next
  case (Cons a xs)
  then have "sort_key f (xs @ [e]) = sort_key f xs @ [e]" "f a \<le> f e"
    by simp_all
  then show ?case
    using insort_key_append_last [where f = f and a = a and e = e and ys = "sort_key f xs"] by simp
qed

text \<open>
  Claim C5, as amended: what the \<open>try\<close> block throws is a third way to fail.  \<open>saveScore\<close>
  returns false and leaves the storage as it is when the name is empty or the score is
  not positive, and also, with a name and a positive score, when the storage rejects the
  write or the loaded list holds a \<open>null\<close>.  When the write is accepted and the loaded list
  consists of score entries, it returns true and stores the first 10 entries of the
  loaded list with the new entry appended, sorted by descending score; sorting keeps the
  entries and puts them in descending order of score.  After eleven saves with a name and
  a positive score, on a storage that accepts the calls and held score entries only, the
  scoreboard has exactly 10 entries in descending order of score, and in strictly
  descending order when no score occurs twice.
\<close>

theorem saveScore_guard_and_top10:
  "(playerName s = [] \<or> ScoreSystem.score s \<le> 0 \<longrightarrow> saveScore engine now s st = (False, st)) \<and>
   (playerName s \<noteq> [] \<and> 0 < ScoreSystem.score s \<and>
    (setItem_throws st \<or> Null \<in> set (getScoreboard st)) \<longrightarrow>
      saveScore engine now s st = (False, st)) \<and>
   (playerName s \<noteq> [] \<and> 0 < ScoreSystem.score s \<and>
    \<not> setItem_throws st \<and> getScoreboard st = map Entry board \<longrightarrow>
      saveScore engine now s st =
        (True, st\<lparr> turiaScores :=
                     Array (map Entry (take 10 (sortDescending (board @ [new_entry now s])))) \<rparr>)) \<and>
   sortedByScore (sortDescending board) \<and> mset (sortDescending board) = mset board \<and>
   (length gs = 11 \<and> (\<forall>(n, v, t)\<in>set gs. n \<noteq> [] \<and> 0 < v) \<and>
    \<not> getItem_throws st \<and> \<not> setItem_throws st \<and> getScoreboard st = map Entry board \<longrightarrow>
      (\<exists>top. getScoreboard (saveScores engine gs s st) = map Entry top \<and>
         length top = 10 \<and> sortedByScore top \<and>
         (distinct (map entry.score board @ map (fst \<circ> snd) gs) \<longrightarrow>
            sorted_wrt (\<lambda>a b. entry.score a > entry.score b) top)))"
proof -
  have many: "\<exists>top. getScoreboard (saveScores engine gs s st) = map Entry top \<and>
         length top = 10 \<and> sortedByScore top \<and>
         (distinct (map entry.score board @ map (fst \<circ> snd) gs) \<longrightarrow>
            sorted_wrt (\<lambda>a b. entry.score a > entry.score b) top)"
    if len: "length gs = 11" and ok: "\<forall>(n, v, t)\<in>set gs. n \<noteq> [] \<and> 0 < v"
      and get: "\<not> getItem_throws st" and set: "\<not> setItem_throws st"
      and loaded: "getScoreboard st = map Entry board"
  proof -
    from len have ne: "gs \<noteq> []" by auto
    from saveScores_board [OF ok get set loaded, of engine s] ne obtain top
      where top: "getScoreboard (saveScores engine gs s st) = map Entry top"
        and l: "length top = min 10 (length board + length gs)"
        and so: "sortedByScore top"
        and sub: "mset (map entry.score top) \<subseteq># mset (map entry.score board @ map (fst \<circ> snd) gs)"
      by blast
    from l len have l10: "length top = 10"
      by simp
    have "sorted_wrt (\<lambda>a b. entry.score a > entry.score b) top"
      if "distinct (map entry.score board @ map (fst \<circ> snd) gs)"
    proof -
      from sub that have "distinct (map entry.score top)"
        by (rule distinct_sub_mset)
      with so show ?thesis by (rule strictly_descending)
    qed
    with top l10 so show ?thesis by blast
  qed
  show ?thesis
    using saveScore_rejected [of s engine now st] saveScore_accepted [of s st board engine now]
      saveScore_fails [of s st engine now]
      sortedByScore_sortDescending [of board] mset_sortDescending [of board] many
    by blast
qed

theorem saveScore_guard_and_top10_witness:
  "saveScore Inr 0 (new_ScoreSystem CONFIG) (working_storage Absent) = (False, working_storage Absent) \<and>
   saveScore Inr 7 late_player (working_storage Absent) =
     (True, working_storage (Array [Entry (new_entry 7 late_player)])) \<and>
   \<not> fst (saveScore Inr 7 late_player (working_storage (Array [Null]))) \<and>
   length (getScoreboard (saveScores Inr eleven_games (new_ScoreSystem CONFIG) (working_storage Absent))) = 10"
proof -
  have a: "playerName (new_ScoreSystem CONFIG) = []"
    by (simp add: new_ScoreSystem_def)
  have b: "playerName late_player \<noteq> []" "0 < ScoreSystem.score late_player"
    by (simp_all add: late_player_def)
  have w: "\<not> getItem_throws (working_storage Absent)" "\<not> setItem_throws (working_storage Absent)"
    "getScoreboard (working_storage Absent) = map Entry []"
    by (simp_all add: working_storage_def getScoreboard_def getItem_def)
  have n: "Null \<in> set (getScoreboard (working_storage (Array [Null])))"
    by (simp add: working_storage_def getScoreboard_def getItem_def)
  have g: "length eleven_games = 11" "\<forall>(n, v, t)\<in>set eleven_games. n \<noteq> [] \<and> 0 < v"
    by (simp_all add: eleven_games_def)
  have one: "take 10 (sortDescending ([] @ [new_entry 7 late_player])) = [new_entry 7 late_player]"
    by (simp add: sortDescending_def)
  have upd: "(working_storage Absent)\<lparr> turiaScores := Array (map Entry [new_entry 7 late_player]) \<rparr> =
      working_storage (Array [Entry (new_entry 7 late_player)])"
    by (simp add: working_storage_def)
  from saveScore_guard_and_top10 [of "new_ScoreSystem CONFIG" Inr 0 "working_storage Absent" "[]" "[]"]
    a
  have r1: "saveScore Inr 0 (new_ScoreSystem CONFIG) (working_storage Absent) = (False, working_storage Absent)"
    by blast
  from saveScore_guard_and_top10 [of late_player Inr 7 "working_storage Absent" "[]" "[]"] b w
  have r2: "saveScore Inr 7 late_player (working_storage Absent) =
       (True, working_storage (Array [Entry (new_entry 7 late_player)]))"
    unfolding one upd [symmetric] by blast
  from saveScore_guard_and_top10 [of late_player Inr 7 "working_storage (Array [Null])" "[]" "[]"] b n
  have "saveScore Inr 7 late_player (working_storage (Array [Null])) =
      (False, working_storage (Array [Null]))"
    by blast
  then have r3: "\<not> fst (saveScore Inr 7 late_player (working_storage (Array [Null])))"
    by simp
  from saveScore_guard_and_top10 [of "new_ScoreSystem CONFIG" Inr 0 "working_storage Absent" "[]" eleven_games]
    g w
  obtain top where "getScoreboard (saveScores Inr eleven_games (new_ScoreSystem CONFIG) (working_storage Absent)) =
      map Entry top" "length top = 10"
    by blast
  then have r4: "length (getScoreboard (saveScores Inr eleven_games (new_ScoreSystem CONFIG) (working_storage Absent))) = 10"
    by simp
  from r1 r2 r3 r4 show ?thesis by simp
qed

text \<open>
  With a name and a positive score, \<open>saveScore\<close> returns false and stores nothing on a
  storage whose calls throw, and on a storage that accepts the calls and holds the array
  \<open>[null]\<close>.
\<close>

theorem saveScore_unavailable_counterexample:
  "playerName late_player \<noteq> [] \<and> 0 < ScoreSystem.score late_player \<and>
   saveScore Inr 7 late_player unavailable_storage = (False, unavailable_storage) \<and>
   saveScore Inr 7 late_player (working_storage (Array [Null])) =
     (False, working_storage (Array [Null]))"
  by (simp add: late_player_def saveScore_def sortByScore_def setItem_def getScoreboard_def
      getItem_def unavailable_storage_def working_storage_def Let_def)

text \<open>
  Claim C9, as amended: the storage has to accept the calls.  When the name is not empty,
  the score is positive, the storage accepts the write and the loaded list consists of
  score entries, \<open>saveScore\<close> returns true.  When moreover the storage accepts the read and
  the stored scoreboard has 10 score entries that all have a higher score, the scoreboard
  afterwards is the old one sorted: it holds the same entries, not the new one, and is the
  very same list when the old one was in descending order of score.
\<close>

theorem saveScore_true_entry_dropped:
  "(playerName s \<noteq> [] \<and> 0 < ScoreSystem.score s \<and>
    \<not> setItem_throws st \<and> getScoreboard st = map Entry loaded \<longrightarrow>
      fst (saveScore engine now s st)) \<and>
   (playerName s \<noteq> [] \<and> 0 < ScoreSystem.score s \<and>
    \<not> getItem_throws st \<and> \<not> setItem_throws st \<and>
    turiaScores st = Array (map Entry board) \<and> length board = 10 \<and>
    (\<forall>e\<in>set board. ScoreSystem.score s < entry.score e) \<longrightarrow>
      fst (saveScore engine now s st) \<and>
      getScoreboard (snd (saveScore engine now s st)) = map Entry (sortDescending board) \<and>
      mset (getScoreboard (snd (saveScore engine now s st))) = mset (map Entry board) \<and>
      Entry (new_entry now s) \<notin> set (getScoreboard (snd (saveScore engine now s st))) \<and>
      (sortedByScore board \<longrightarrow> snd (saveScore engine now s st) = st))"
proof -
  have any: "fst (saveScore engine now s st)"
    if "playerName s \<noteq> []" "0 < ScoreSystem.score s" "\<not> setItem_throws st"
      "getScoreboard st = map Entry loaded"
    using saveScore_accepted [OF that, of engine now] by simp
  have full: "fst (saveScore engine now s st) \<and>
      getScoreboard (snd (saveScore engine now s st)) = map Entry (sortDescending board) \<and>
      mset (getScoreboard (snd (saveScore engine now s st))) = mset (map Entry board) \<and>
      Entry (new_entry now s) \<notin> set (getScoreboard (snd (saveScore engine now s st))) \<and>
      (sortedByScore board \<longrightarrow> snd (saveScore engine now s st) = st)"
    if guard: "playerName s \<noteq> []" "0 < ScoreSystem.score s"
      and get: "\<not> getItem_throws st" and set: "\<not> setItem_throws st"
      and st: "turiaScores st = Array (map Entry board)" and len: "length board = 10"
      and higher: "\<forall>e\<in>set board. ScoreSystem.score s < entry.score e"
  proof -
    have loaded: "getScoreboard st = map Entry board"
      using get st by (simp add: getScoreboard_def getItem_def)
    have "\<forall>e\<in>set board. - entry.score e \<le> - entry.score (new_entry now s)"
      using higher by (auto simp: new_entry_def)
    then have "sortDescending (board @ [new_entry now s]) = sortDescending board @ [new_entry now s]"
      unfolding sortDescending_def by (rule sort_key_append_last)
    then have top: "take 10 (sortDescending (board @ [new_entry now s])) = sortDescending board"
      using len by (simp add: sortDescending_def)
    have res: "saveScore engine now s st = (True, st\<lparr> turiaScores := Array (map Entry (sortDescending board)) \<rparr>)"
      using saveScore_accepted [OF guard set loaded, of engine now] top by simp
    have after: "getScoreboard (snd (saveScore engine now s st)) = map Entry (sortDescending board)"
      unfolding res using get by (simp add: getScoreboard_written)
    have same_entries: "mset (map Entry (sortDescending board)) = mset (map Entry board)"
      by (simp add: mset_sortDescending)
    have "new_entry now s \<notin> set (sortDescending board)"
      using higher by (auto simp: sortDescending_def new_entry_def)
    then have absent: "Entry (new_entry now s) \<notin> set (map Entry (sortDescending board))"
      by auto
    have same: "snd (saveScore engine now s st) = st" if "sortedByScore board"
      unfolding res using that st by (simp add: sortDescending_sorted_id)
    from res after same_entries absent same show ?thesis
      by simp
  qed
  from any full show ?thesis
    by blast
qed

theorem saveScore_true_entry_dropped_witness:
  "fst (saveScore Inr 7 late_player (working_storage Absent)) \<and>
   fst (saveScore Inr 7 late_player (working_storage (Array (map Entry full_board)))) \<and>
   snd (saveScore Inr 7 late_player (working_storage (Array (map Entry full_board)))) =
     working_storage (Array (map Entry full_board)) \<and>
   Entry (new_entry 7 late_player) \<notin>
     set (getScoreboard (snd (saveScore Inr 7 late_player (working_storage (Array (map Entry full_board))))))"
proof -
  have b: "playerName late_player \<noteq> []" "0 < ScoreSystem.score late_player"
    by (simp_all add: late_player_def)
  have e: "\<not> setItem_throws (working_storage Absent)" "getScoreboard (working_storage Absent) = map Entry []"
    by (simp_all add: working_storage_def getScoreboard_def getItem_def)
  have w: "\<not> getItem_throws (working_storage (Array (map Entry full_board)))"
    "\<not> setItem_throws (working_storage (Array (map Entry full_board)))"
    "turiaScores (working_storage (Array (map Entry full_board))) = Array (map Entry full_board)"
    by (simp_all add: working_storage_def)
  have f: "length full_board = 10" "\<forall>e\<in>set full_board. ScoreSystem.score late_player < entry.score e"
    "sortedByScore full_board"
    by (simp_all add: full_board_def late_player_def sortedByScore_def)
  from saveScore_true_entry_dropped [of late_player "working_storage Absent" "[]" Inr 7 "[]"] b e
  have r1: "fst (saveScore Inr 7 late_player (working_storage Absent))"
    by blast
  from saveScore_true_entry_dropped
         [of late_player "working_storage (Array (map Entry full_board))" "[]" Inr 7 full_board]
    b w f
  have r2: "fst (saveScore Inr 7 late_player (working_storage (Array (map Entry full_board)))) \<and>
   snd (saveScore Inr 7 late_player (working_storage (Array (map Entry full_board)))) =
     working_storage (Array (map Entry full_board)) \<and>
   Entry (new_entry 7 late_player) \<notin>
     set (getScoreboard (snd (saveScore Inr 7 late_player (working_storage (Array (map Entry full_board))))))"
    by blast
  from r1 r2 show ?thesis by blast
qed

text \<open>
  The guard passes and the stored scoreboard has 10 entries of higher score.  When the
  write throws, \<open>saveScore\<close> returns false; and when the read throws and the write is
  accepted, it returns true and the stored scoreboard is replaced by the new entry alone.
\<close>

theorem saveScore_readonly_counterexample:
  "playerName late_player \<noteq> [] \<and> ScoreSystem.score late_player = 50 \<and>
   getScoreboard readonly_storage = map Entry full_board \<and>
   turiaScores writeonly_storage = Array (map Entry full_board) \<and>
   map entry.score full_board = [1000, 900, 800, 700, 600, 500, 400, 300, 200, 100] \<and>
   \<not> fst (saveScore Inr 7 late_player readonly_storage) \<and>
   fst (saveScore Inr 7 late_player writeonly_storage) \<and>
   turiaScores (snd (saveScore Inr 7 late_player writeonly_storage)) =
     Array [Entry (new_entry 7 late_player)]"
proof -
  have s: "sortByScore Inr (map Entry (full_board @ [new_entry 7 late_player])) =
      Inr (map Entry (sortDescending (full_board @ [new_entry 7 late_player])))"
    by (rule sortByScore_entries)
  have r: "\<not> fst (saveScore Inr 7 late_player readonly_storage)"
    using s by (simp add: late_player_def saveScore_def setItem_def getScoreboard_def getItem_def
        readonly_storage_def new_entry_def Let_def)
  have w: "saveScore Inr 7 late_player writeonly_storage =
      (True, writeonly_storage\<lparr> turiaScores := Array [Entry (new_entry 7 late_player)] \<rparr>)"
    by (simp add: late_player_def saveScore_def sortByScore_def setItem_def getScoreboard_def
        getItem_def writeonly_storage_def new_entry_def Let_def)
  show ?thesis
    using r unfolding w
    by (simp add: late_player_def getScoreboard_def getItem_def readonly_storage_def
        writeonly_storage_def full_board_def)
qed

end
